theory Spec2Isabelle
  imports Main "HOL-Library.Word"
begin

section \<open>Go library functions used by the monitor\<close>

text \<open>
  Go strings are byte sequences, here \<^typ>\<open>string\<close> (a list of 8-bit characters).
  The functions of this section are the parts of the Go standard library that
  \<^verbatim>\<open>main.go\<close> calls; each is written after the library's documented behaviour and
  keeps the library's name.
\<close>

subsection \<open>Errors\<close>

text \<open>
  \<^verbatim>\<open>errors.New\<close>/\<^verbatim>\<open>fmt.Errorf\<close> without \<^verbatim>\<open>%w\<close> give an \<open>ErrorString\<close>,
  \<^verbatim>\<open>fmt.Errorf("...: %w", err)\<close> gives a \<open>WrapError\<close>, \<^verbatim>\<open>net.SplitHostPort\<close> fails
  with an \<open>AddrError\<close> (address, reason), and the line scanner fails with \<open>ErrTooLong\<close>.
\<close>

datatype error =
    ErrorString string
  | WrapError string error
  | AddrError string string
  | ErrTooLong

fun errorText :: "error \<Rightarrow> string" where
  "errorText (ErrorString s) = s"
| "errorText (WrapError s e) = s @ '': '' @ errorText e"
| "errorText (AddrError addr why) = (if addr = [] then why else ''address '' @ addr @ '': '' @ why)"
| "errorText ErrTooLong = ''bufio.Scanner: token too long''"

subsection \<open>strings.TrimSpace, strings.HasPrefix, strings.TrimPrefix and friends\<close>

text \<open>
  \<^verbatim>\<open>strings.TrimSpace\<close> removes leading and trailing white space as Unicode defines it:
  the six ASCII characters tab, line feed, vertical tab, form feed, carriage return and
  space, and the code points U+0085, U+00A0, U+1680, U+2000 to U+200A, U+2028, U+2029,
  U+202F, U+205F and U+3000, which are listed here in their UTF-8 encoding. A byte
  sequence that is not one of these encodings decodes to a rune that is not white space.
\<close>

definition spaceRunes :: "string list" where
  "spaceRunes =
    [[CHR 0x09], [CHR 0x0A], [CHR 0x0B], [CHR 0x0C], [CHR 0x0D], [CHR 0x20],
     [CHR 0xC2, CHR 0x85], [CHR 0xC2, CHR 0xA0],
     [CHR 0xE1, CHR 0x9A, CHR 0x80],
     [CHR 0xE2, CHR 0x80, CHR 0x80], [CHR 0xE2, CHR 0x80, CHR 0x81],
     [CHR 0xE2, CHR 0x80, CHR 0x82], [CHR 0xE2, CHR 0x80, CHR 0x83],
     [CHR 0xE2, CHR 0x80, CHR 0x84], [CHR 0xE2, CHR 0x80, CHR 0x85],
     [CHR 0xE2, CHR 0x80, CHR 0x86], [CHR 0xE2, CHR 0x80, CHR 0x87],
     [CHR 0xE2, CHR 0x80, CHR 0x88], [CHR 0xE2, CHR 0x80, CHR 0x89],
     [CHR 0xE2, CHR 0x80, CHR 0x8A],
     [CHR 0xE2, CHR 0x80, CHR 0xA8], [CHR 0xE2, CHR 0x80, CHR 0xA9],
     [CHR 0xE2, CHR 0x80, CHR 0xAF],
     [CHR 0xE2, CHR 0x81, CHR 0x9F],
     [CHR 0xE3, CHR 0x80, CHR 0x80]]"

text \<open>The width in bytes of the white-space rune a string starts with, 0 when it starts with none.\<close>

definition leadingRune :: "string list \<Rightarrow> string \<Rightarrow> nat" where
  "leadingRune runes s =
     (case find (\<lambda>w. w \<noteq> [] \<and> take (length w) s = w) runes of
        None \<Rightarrow> 0
      | Some w \<Rightarrow> length w)"

function stripRunes :: "string list \<Rightarrow> string \<Rightarrow> string" where
  "stripRunes runes s =
     (if leadingRune runes s = 0 then s
      else stripRunes runes (drop (leadingRune runes s) s))"
  by pat_completeness auto
termination
proof (relation "measure (\<lambda>(runes, s). length s)")
  show "wf (measure (\<lambda>(runes, s). length s))" by simp
next
  fix runes :: "string list" and s :: string
  assume nz: "leadingRune runes s \<noteq> 0"
  have "leadingRune runes s \<le> length s"
  proof (cases "find (\<lambda>w. w \<noteq> [] \<and> take (length w) s = w) runes")
    case None
    then show ?thesis by (simp add: leadingRune_def)
  next
    case (Some w)
    then have "take (length w) s = w"
      by (auto simp: find_Some_iff)
    then have "length (take (length w) s) = length w"
      by simp
    then have "length w \<le> length s"
      by simp
    with Some show ?thesis by (simp add: leadingRune_def)
  qed
  with nz show "((runes, drop (leadingRune runes s) s), (runes, s)) \<in> measure (\<lambda>(runes, s). length s)"
    by simp
qed

declare stripRunes.simps [simp del]

definition TrimLeftSpace :: "string \<Rightarrow> string" where
  "TrimLeftSpace s = stripRunes spaceRunes s"

text \<open>Trailing white space is found by decoding the last rune; on the reversed string
  that is a leading rune with its bytes reversed.\<close>

definition TrimRightSpace :: "string \<Rightarrow> string" where
  "TrimRightSpace s = rev (stripRunes (map rev spaceRunes) (rev s))"

definition TrimSpace :: "string \<Rightarrow> string" where
  "TrimSpace s = TrimRightSpace (TrimLeftSpace s)"

definition HasPrefix :: "string \<Rightarrow> string \<Rightarrow> bool" where
  "HasPrefix s p \<longleftrightarrow> length p \<le> length s \<and> take (length p) s = p"

definition HasSuffix :: "string \<Rightarrow> string \<Rightarrow> bool" where
  "HasSuffix s p \<longleftrightarrow> length p \<le> length s \<and> drop (length s - length p) s = p"

definition TrimPrefix :: "string \<Rightarrow> string \<Rightarrow> string" where
  "TrimPrefix s p = (if HasPrefix s p then drop (length p) s else s)"

definition TrimSuffix :: "string \<Rightarrow> string \<Rightarrow> string" where
  "TrimSuffix s p = (if HasSuffix s p then take (length s - length p) s else s)"

text \<open>\<^verbatim>\<open>strings.IndexByte\<close> and \<^verbatim>\<open>strings.LastIndexByte\<close>; Go's \<open>-1\<close> is \<open>None\<close>.\<close>

definition IndexByte :: "string \<Rightarrow> char \<Rightarrow> nat option" where
  "IndexByte s c =
     (if c \<in> set s then Some (length (takeWhile (\<lambda>x. x \<noteq> c) s)) else None)"

definition LastIndexByte :: "string \<Rightarrow> char \<Rightarrow> nat option" where
  "LastIndexByte s c =
     (if c \<in> set s then Some (length s - Suc (length (takeWhile (\<lambda>x. x \<noteq> c) (rev s))))
      else None)"

subsection \<open>The two regular expressions\<close>

text \<open>
  In Go's regexp syntax \<^verbatim>\<open>\s\<close> is one of tab, line feed, form feed, carriage return
  and space (not vertical tab), \<^verbatim>\<open>\d\<close> is an ASCII digit, \<^verbatim>\<open>.\<close> is any
  character but line feed, and \<^verbatim>\<open>$\<close> is the end of the text.
\<close>

definition reSpace :: "char \<Rightarrow> bool" where
  "reSpace c \<longleftrightarrow> c \<in> set [CHR 0x09, CHR 0x0A, CHR 0x0C, CHR 0x0D, CHR 0x20]"

definition reDigit :: "char \<Rightarrow> bool" where
  "reDigit c \<longleftrightarrow> c \<in> set ''0123456789''"

text \<open>
  \<^verbatim>\<open>regexp.MustCompile(`^\s*Endpoint\s*=\s*(.+)$`).FindStringSubmatch\<close>: the result is
  the text of group 1 when the expression matches (a match slice of length 2), \<open>None\<close>
  when it does not. The three \<^verbatim>\<open>\s*\<close> are greedy. After the equals sign the white
  space \<open>w\<close> is followed by the rest \<open>r\<close>; group 1 is \<open>r\<close> when \<open>r\<close> is not empty,
  and otherwise the last character of \<open>w\<close>, which the greedy \<^verbatim>\<open>\s*\<close> has to give
  back; a line feed in group 1 makes the match fail.
\<close>

definition endpointRegex :: "string \<Rightarrow> string option" where
  "endpointRegex s =
     (let s1 = dropWhile reSpace s in
      if take 8 s1 \<noteq> ''Endpoint'' then None
      else
        (case dropWhile reSpace (drop 8 s1) of
           [] \<Rightarrow> None
         | c # s3 \<Rightarrow>
             if c \<noteq> CHR ''='' then None
             else
               (let w = takeWhile reSpace s3; r = dropWhile reSpace s3 in
                if CHR 0x0A \<in> set r then None
                else if r \<noteq> [] then Some r
                else if w \<noteq> [] \<and> last w \<noteq> CHR 0x0A then Some [last w]
                else None)))"

text \<open>\<^verbatim>\<open>\d+\<close> and \<^verbatim>\<open>\.\<close> at the start of a string: the rest of the string after them.\<close>

definition reDigits :: "string \<Rightarrow> string option" where
  "reDigits s = (if takeWhile reDigit s = [] then None else Some (dropWhile reDigit s))"

definition reDot :: "string \<Rightarrow> string option" where
  "reDot s = (case s of [] \<Rightarrow> None | c # r \<Rightarrow> if c = CHR ''.'' then Some r else None)"

text \<open>\<^verbatim>\<open>regexp.MustCompile(`^\d+\.\d+\.\d+\.\d+`).MatchString\<close>: anchored at the start only.\<close>

definition ipRegex :: "string \<Rightarrow> bool" where
  "ipRegex s \<longleftrightarrow>
     Option.bind (Option.bind (Option.bind (Option.bind (Option.bind (Option.bind
       (reDigits s) reDot) reDigits) reDot) reDigits) reDot) reDigits \<noteq> None"

subsection \<open>net.SplitHostPort\<close>

definition missingPort :: string where
  "missingPort = ''missing port in address''"

definition tooManyColons :: string where
  "tooManyColons = ''too many colons in address''"

text \<open>The last part of \<^verbatim>\<open>net.SplitHostPort\<close>: no bracket may follow positions \<open>j\<close>
  and \<open>k\<close>; the port is what follows the last colon, at \<open>i\<close>.\<close>

definition splitTail :: "string \<Rightarrow> string \<Rightarrow> nat \<Rightarrow> nat \<Rightarrow> nat \<Rightarrow> error + string \<times> string" where
  "splitTail hostport host i j k =
     (if CHR ''['' \<in> set (drop j hostport)
        then Inl (AddrError hostport (''unexpected '' @ [CHR 0x27, CHR ''['', CHR 0x27] @ '' in address''))
      else if CHR '']'' \<in> set (drop k hostport)
        then Inl (AddrError hostport (''unexpected '' @ [CHR 0x27, CHR '']'', CHR 0x27] @ '' in address''))
      else Inr (host, drop (Suc i) hostport))"

definition SplitHostPort :: "string \<Rightarrow> error + string \<times> string" where
  "SplitHostPort hostport =
     (case LastIndexByte hostport (CHR '':'') of
        None \<Rightarrow> Inl (AddrError hostport missingPort)
      | Some i \<Rightarrow>
          if take 1 hostport = ''[''
          then
            (case IndexByte hostport (CHR '']'') of
               None \<Rightarrow>
                 Inl (AddrError hostport (''missing '' @ [CHR 0x27, CHR '']'', CHR 0x27] @ '' in address''))
             | Some e \<Rightarrow>
                 if Suc e = length hostport then Inl (AddrError hostport missingPort)
                 else if Suc e = i then splitTail hostport (take (e - 1) (drop 1 hostport)) i 1 (Suc e)
                 else if take 1 (drop (Suc e) hostport) = '':''
                   then Inl (AddrError hostport tooManyColons)
                 else Inl (AddrError hostport missingPort))
          else
            (let host = take i hostport in
             if CHR '':'' \<in> set host then Inl (AddrError hostport tooManyColons)
             else splitTail hostport host i 0 0))"

subsection \<open>net.IP\<close>

text \<open>
  A \<^verbatim>\<open>net.IP\<close> is a byte slice: 4 bytes or 16 bytes for an address, and \<^verbatim>\<open>nil\<close>
  (the empty slice) when unset. \<^verbatim>\<open>IP.Equal\<close> treats the 4-byte form and the 16-byte
  form of one IPv4 address as the same address.
\<close>

type_synonym IP = "8 word list"

definition v4InV6Prefix :: IP where
  "v4InV6Prefix = [0, 0, 0, 0, 0, 0, 0, 0, 0, 0, 0xff, 0xff]"

definition IP_Equal :: "IP \<Rightarrow> IP \<Rightarrow> bool" where
  "IP_Equal ip x \<longleftrightarrow>
     (if length ip = length x then ip = x
      else if length ip = 4 \<and> length x = 16 then take 12 x = v4InV6Prefix \<and> ip = drop 12 x
      else if length ip = 16 \<and> length x = 4 then take 12 ip = v4InV6Prefix \<and> drop 12 ip = x
      else False)"

subsection \<open>bufio.Scanner with the default split function\<close>

text \<open>
  A file that was opened delivers its bytes and then either the end of the file or a
  read error. The scanner returns the lines one by one: a line ends at a line feed, one
  trailing carriage return is dropped, a last line without line feed is returned when it
  is not empty. A line of 65536 bytes or more stops the scan with \<open>ErrTooLong\<close>;
  otherwise a read error is what \<^verbatim>\<open>Err()\<close> reports once the delivered bytes are used up.
\<close>

record osFile =
  bytes :: string
  readErr :: "error option"

definition MaxScanTokenSize :: nat where
  "MaxScanTokenSize = 65536"

definition dropCR :: "string \<Rightarrow> string" where
  "dropCR data = (if data \<noteq> [] \<and> last data = CHR 0x0D then butlast data else data)"

function ScanLines :: "string \<Rightarrow> string list \<times> error option" where
  "ScanLines data =
     (if data = [] then ([], None)
      else
        (let line = takeWhile (\<lambda>c. c \<noteq> CHR 0x0A) data;
             rest = dropWhile (\<lambda>c. c \<noteq> CHR 0x0A) data
         in if MaxScanTokenSize \<le> length line then ([], Some ErrTooLong)
            else if rest = [] then ([dropCR line], None)
            else (let (ls, e) = ScanLines (tl rest) in (dropCR line # ls, e))))"
  by pat_completeness auto
termination
proof (relation "measure length")
  show "wf (measure length)" by simp
next
  fix data :: string and x xa
  assume "data \<noteq> []" and xa: "xa = dropWhile (\<lambda>c. c \<noteq> CHR 0x0A) data" and "xa \<noteq> []"
  then have "length (tl xa) < length xa" by simp
  moreover have "length xa \<le> length data"
    using xa by (simp add: length_dropWhile_le)
  ultimately show "(tl xa, data) \<in> measure length" by simp
qed

declare ScanLines.simps [simp del]

text \<open>The lines the loop \<^verbatim>\<open>for scanner.Scan()\<close> sees, and what \<^verbatim>\<open>scanner.Err()\<close>
  returns after it.\<close>

definition Scanner :: "osFile \<Rightarrow> string list \<times> error option" where
  "Scanner f =
     (case ScanLines (bytes f) of
        (ls, Some e) \<Rightarrow> (ls, Some e)
      | (ls, None) \<Rightarrow> (ls, readErr f))"

section \<open>The monitor\<close>

subsection \<open>Data\<close>

text \<open>\<^verbatim>\<open>type Config struct\<close>; an unset \<open>LastIP\<close> is the empty slice.\<close>

record Config =
  Interface :: string
  Endpoint :: string
  Hostname :: string
  LastIP :: IP

text \<open>
  \<^verbatim>\<open>type DDNSMonitor struct\<close>, with the two fields that the functions below read or
  write. The connection \<open>conn\<close> is the parameter \<open>conn\<close> of the functions that use it;
  \<open>apiEnabled\<close>, \<open>listenAddress\<close>, \<open>listenPort\<close>, \<open>apiKey\<close>, \<open>httpServer\<close> and
  \<open>checkInterval\<close> are used by the HTTP set-up and the ticker only.
\<close>

record DDNSMonitor =
  configs :: "Config list"
  singleInterface :: string

text \<open>\<^verbatim>\<open>dbus.UnitStatus\<close>, with the two fields the discovery reads.\<close>

record UnitStatus =
  Name :: string
  ActiveState :: string

record RestartRequest =
  RequestInterface :: string

record RestartResponse =
  Success :: bool
  Message :: string

subsection \<open>The world outside\<close>

text \<open>
  Calls to the logger only print and are left out. Every other call that leaves the
  process is an explicit parameter, so that the theorems hold for whatever the world
  answers.

  A \<open>resolver\<close> is \<^verbatim>\<open>net.ResolveIPAddr\<close>: network and host give \<open>Inr\<close> the
  \<^verbatim>\<open>IP\<close> of the address found, or \<open>Inl\<close> the error. Its first argument numbers the
  lookups of one operation, so that two lookups of one name may differ: during a check it
  is the index of the entry, during discovery the number of entries registered so far
  (every lookup there is followed by one \<^verbatim>\<open>append\<close>).

  A \<open>systemd\<close> is \<^verbatim>\<open>conn.RestartUnitContext\<close> together with the receive from the
  result channel: unit name and mode give \<open>Inl\<close> the error of the call, or \<open>Inr\<close> the
  job result that arrives on the channel. A job that systemd accepted is taken to report
  its result, as the receive \<^verbatim>\<open>job := <-reschan\<close> waits for it.
\<close>

type_synonym resolver = "nat \<Rightarrow> string \<Rightarrow> string \<Rightarrow> error + IP"

type_synonym systemd = "string \<Rightarrow> string \<Rightarrow> error + string"

text \<open>
  What start-up reads: the result of \<^verbatim>\<open>dbus.NewWithContext\<close> (\<open>None\<close> is success), of
  \<^verbatim>\<open>conn.ListUnitsContext\<close>, of \<^verbatim>\<open>os.Open\<close> for each path, and the resolver.
  \<^verbatim>\<open>filepath.Join\<close> is a parameter as well: it decides which path is opened and
  nothing else.
\<close>

record world =
  dbusNew :: "error option"
  ListUnits :: "error + UnitStatus list"
  Join :: "string \<Rightarrow> string \<Rightarrow> string"
  Open :: "string \<Rightarrow> error + osFile"
  ResolveIPAddr :: resolver

subsection \<open>parseWireGuardConfig\<close>

text \<open>
  The body of the loop \<^verbatim>\<open>for scanner.Scan()\<close>, lines 348 to 372 of \<^verbatim>\<open>main.go\<close>:
  the registry \<^verbatim>\<open>m.configs\<close> after the line \<open>text\<close>. The two \<open>cfgs\<close> results
  without an \<^verbatim>\<open>append\<close> are the \<^verbatim>\<open>continue\<close> after a failed split and the
  lines that do not match or that the address filter drops.
\<close>

definition scanLine :: "resolver \<Rightarrow> string \<Rightarrow> Config list \<Rightarrow> string \<Rightarrow> Config list" where
  "scanLine dns interfaceName cfgs text =
     (let line = TrimSpace text in
      case endpointRegex line of
        None \<Rightarrow> cfgs
      | Some match1 \<Rightarrow>
          (let endpoint = TrimSpace match1 in
           case SplitHostPort endpoint of
             Inl err \<Rightarrow> cfgs
           | Inr (host, port) \<Rightarrow>
               if \<not> ipRegex host then
                 (let config = \<lparr>Interface = interfaceName, Endpoint = endpoint,
                                 Hostname = host, LastIP = []\<rparr>;
                      config' = (case dns (length cfgs) ''ip4'' host of
                                   Inr ip \<Rightarrow> config\<lparr>LastIP := ip\<rparr>
                                 | Inl err \<Rightarrow> config)
                  in cfgs @ [config'])
               else cfgs))"

definition parseWireGuardConfig ::
    "world \<Rightarrow> DDNSMonitor \<Rightarrow> string \<Rightarrow> string \<Rightarrow> DDNSMonitor \<times> error option" where
  "parseWireGuardConfig w m interfaceName configPath =
     (case Open w configPath of
        Inl err \<Rightarrow> (m, Some (WrapError (''failed to open config file '' @ configPath) err))
      | Inr f \<Rightarrow>
          (case Scanner f of
             (lines, err) \<Rightarrow>
               (m\<lparr>configs := foldl (scanLine (ResolveIPAddr w) interfaceName) (configs m) lines\<rparr>,
                err)))"

subsection \<open>Discovery\<close>

definition parseSingleInterface :: "world \<Rightarrow> DDNSMonitor \<Rightarrow> DDNSMonitor \<times> error option" where
  "parseSingleInterface w m =
     (let configPath = Join w ''/etc/wireguard'' (singleInterface m @ ''.conf'') in
      case parseWireGuardConfig w m (singleInterface m) configPath of
        (m', Some err) \<Rightarrow>
          (m', Some (WrapError (''failed to parse config for '' @ singleInterface m) err))
      | (m', None) \<Rightarrow> (m', None))"

text \<open>The interface name of a unit name: \<^verbatim>\<open>TrimPrefix\<close>, then \<^verbatim>\<open>TrimSuffix\<close>.\<close>

definition unitInterface :: "string \<Rightarrow> string" where
  "unitInterface unitName = TrimSuffix (TrimPrefix unitName ''wg-quick@'') ''.service''"

text \<open>The body of the loop over the units; a failed parse is logged and the loop goes on
  with what the parse had appended.\<close>

definition discoverUnit :: "world \<Rightarrow> DDNSMonitor \<Rightarrow> UnitStatus \<Rightarrow> DDNSMonitor" where
  "discoverUnit w m u =
     (if HasPrefix (Name u) ''wg-quick@'' \<and> HasSuffix (Name u) ''.service''
         \<and> ActiveState u = ''active''
      then
        (let interfaceName = unitInterface (Name u);
             configPath = Join w ''/etc/wireguard'' (interfaceName @ ''.conf'')
         in fst (parseWireGuardConfig w m interfaceName configPath))
      else m)"

definition discoverWireGuardConfigs :: "world \<Rightarrow> DDNSMonitor \<Rightarrow> DDNSMonitor \<times> error option" where
  "discoverWireGuardConfigs w m =
     (case ListUnits w of
        Inl err \<Rightarrow> (m, Some (WrapError ''failed to list systemd units'' err))
      | Inr units \<Rightarrow> (foldl (discoverUnit w) m units, None))"

definition initialize :: "world \<Rightarrow> DDNSMonitor \<Rightarrow> DDNSMonitor \<times> error option" where
  "initialize w m =
     (case dbusNew w of
        Some err \<Rightarrow> (m, Some (WrapError ''failed to connect to systemd'' err))
      | None \<Rightarrow>
          if singleInterface m \<noteq> [] then parseSingleInterface w m
          else discoverWireGuardConfigs w m)"

subsection \<open>restartWireGuardService\<close>

definition serviceName :: "string \<Rightarrow> string" where
  "serviceName interfaceName = ''wg-quick@'' @ interfaceName @ ''.service''"

text \<open>The result, and the request that went to systemd (unit name and mode).\<close>

definition restartWireGuardService :: "systemd \<Rightarrow> string \<Rightarrow> error option \<times> string \<times> string" where
  "restartWireGuardService conn interfaceName =
     (let name = serviceName interfaceName in
      (case conn name ''replace'' of
         Inl err \<Rightarrow> Some (WrapError (''failed to restart service '' @ name) err)
       | Inr job \<Rightarrow>
           if job \<noteq> ''done'' then Some (ErrorString (''service restart job failed: '' @ job))
           else None,
       (name, ''replace'')))"

subsection \<open>checkEndpoints\<close>

text \<open>
  A restart that a check issued: the index of the entry whose iteration issued it, the
  request, and \<^verbatim>\<open>m.configs\<close> as it was at the moment of the call.
\<close>

record restart =
  entry :: nat
  request :: "string \<times> string"
  registry :: "Config list"

text \<open>
  The body of the loop, for index \<open>i\<close>: the monitor and the restarts issued so far.
  The entry is written before \<^verbatim>\<open>restartWireGuardService\<close> is called; the result of
  the restart only selects the line that is logged. The systemd that answers may differ
  from entry to entry, so a check takes one for each index.
\<close>

definition checkEndpoint ::
    "resolver \<Rightarrow> (nat \<Rightarrow> systemd) \<Rightarrow> DDNSMonitor \<times> restart list \<Rightarrow> nat
       \<Rightarrow> DDNSMonitor \<times> restart list" where
  "checkEndpoint dns conn st i =
     (case st of
        (m, issued) \<Rightarrow>
          (let config = configs m ! i in
           case dns i ''ip4'' (Hostname config) of
             Inl err \<Rightarrow> (m, issued)
           | Inr currentIP \<Rightarrow>
               if \<not> IP_Equal (LastIP config) currentIP then
                 (let m' = m\<lparr>configs := (configs m)[i := config\<lparr>LastIP := currentIP\<rparr>]\<rparr>;
                      (err, req) = restartWireGuardService (conn i) (Interface config)
                  in (m', issued @ [\<lparr>entry = i, request = req, registry = configs m'\<rparr>]))
               else (m, issued)))"

text \<open>\<^verbatim>\<open>for i := range m.configs\<close>: the indices \<open>0\<close> to \<open>len(m.configs) - 1\<close>, in order.\<close>

definition checkEndpoints ::
    "resolver \<Rightarrow> (nat \<Rightarrow> systemd) \<Rightarrow> DDNSMonitor \<Rightarrow> DDNSMonitor \<times> restart list" where
  "checkEndpoints dns conn m =
     foldl (checkEndpoint dns conn) (m, []) [0..<length (configs m)]"

subsection \<open>handleRestart\<close>

text \<open>
  The argument \<open>bound\<close> is the result of \<^verbatim>\<open>c.ShouldBindJSON(&req)\<close>. The result is the
  HTTP status, the response body and the requests that went to systemd.
\<close>

definition quoted :: "string \<Rightarrow> string" where
  "quoted s = [CHR 0x27] @ s @ [CHR 0x27]"

definition handleRestart ::
    "systemd \<Rightarrow> DDNSMonitor \<Rightarrow> error + RestartRequest
       \<Rightarrow> nat \<times> RestartResponse \<times> (string \<times> string) list" where
  "handleRestart conn m bound =
     (case bound of
        Inl err \<Rightarrow> (400, \<lparr>Success = False, Message = ''Invalid request format''\<rparr>, [])
      | Inr req \<Rightarrow>
          if singleInterface m \<noteq> [] \<and> RequestInterface req \<noteq> singleInterface m then
            (400, \<lparr>Success = False,
                   Message = ''Only interface '' @ quoted (singleInterface m) @ '' is monitored''\<rparr>, [])
          else if \<not> list_ex (\<lambda>config. Interface config = RequestInterface req) (configs m) then
            (404, \<lparr>Success = False,
                   Message = ''Interface '' @ quoted (RequestInterface req)
                             @ '' not found in monitored interfaces''\<rparr>, [])
          else
            (case restartWireGuardService conn (RequestInterface req) of
               (Some err, call) \<Rightarrow>
                 (500, \<lparr>Success = False,
                        Message = ''Failed to restart interface: '' @ errorText err\<rparr>, [call])
             | (None, call) \<Rightarrow>
                 (200, \<lparr>Success = True,
                        Message = ''Interface '' @ quoted (RequestInterface req)
                                  @ '' restarted successfully''\<rparr>, [call])))"

subsection \<open>The states the monitor goes through\<close>

text \<open>
  \<^verbatim>\<open>main\<close> builds the monitor with an empty registry, initialises it (and exits when
  that fails) and then runs one check per tick; the HTTP handlers do not write to it.
\<close>

inductive reachable :: "DDNSMonitor \<Rightarrow> bool" where
  started: "initialize w \<lparr>configs = [], singleInterface = single\<rparr> = (m, None) \<Longrightarrow> reachable m"
| checked: "reachable m \<Longrightarrow> reachable (fst (checkEndpoints dns conn m))"

section \<open>Notions used in the statements and proofs\<close>

subsection \<open>One iteration of the check, seen from its entry\<close>

text \<open>What the iteration for index \<open>i\<close> makes of the entry \<open>c\<close>, and whether it
  issues a restart.\<close>

definition resolved :: "resolver \<Rightarrow> nat \<Rightarrow> Config \<Rightarrow> Config" where
  "resolved dns i c =
     (case dns i ''ip4'' (Hostname c) of
        Inl err \<Rightarrow> c
      | Inr ip \<Rightarrow> if IP_Equal (LastIP c) ip then c else c\<lparr>LastIP := ip\<rparr>)"

definition drifted :: "resolver \<Rightarrow> nat \<Rightarrow> Config \<Rightarrow> bool" where
  "drifted dns i c =
     (case dns i ''ip4'' (Hostname c) of
        Inl err \<Rightarrow> False
      | Inr ip \<Rightarrow> \<not> IP_Equal (LastIP c) ip)"

text \<open>The registry after the first \<open>k\<close> iterations, and the restart that iteration
  \<open>i\<close> issues when its entry has drifted.\<close>

definition registryAfter :: "resolver \<Rightarrow> Config list \<Rightarrow> nat \<Rightarrow> Config list" where
  "registryAfter dns cs k =
     map (\<lambda>j. if j < k then resolved dns j (cs ! j) else cs ! j) [0..<length cs]"

definition restartOf :: "resolver \<Rightarrow> Config list \<Rightarrow> nat \<Rightarrow> restart" where
  "restartOf dns cs i =
     \<lparr>entry = i, request = (serviceName (Interface (cs ! i)), ''replace''),
      registry = registryAfter dns cs (Suc i)\<rparr>"

subsection \<open>Literal addresses, as the specification speaks of them\<close>

text \<open>
  The specification's ``literal IPv4 dotted-quad address'': four groups of decimal
  digits, separated by dots, each denoting a number up to 255. This notion is independent
  of the pattern \<open>ipRegex\<close> of the code; the theorems relate the two.
\<close>

fun fields :: "char \<Rightarrow> string \<Rightarrow> string list" where
  "fields sep [] = [[]]"
| "fields sep (x # xs) =
     (if x = sep then [] # fields sep xs
      else (case fields sep xs of [] \<Rightarrow> [[x]] | f # fs \<Rightarrow> (x # f) # fs))"

definition decimal :: "string \<Rightarrow> nat" where
  "decimal s = foldl (\<lambda>n c. 10 * n + (of_char c - 48)) 0 s"

definition digitGroup :: "string \<Rightarrow> bool" where
  "digitGroup g \<longleftrightarrow> g \<noteq> [] \<and> list_all reDigit g"

definition literalIPv4 :: "string \<Rightarrow> bool" where
  "literalIPv4 host \<longleftrightarrow>
     (let groups = fields (CHR ''.'') host
      in length groups = 4 \<and> list_all (\<lambda>g. digitGroup g \<and> decimal g \<le> 255) groups)"

subsection \<open>Lines of the form \<open>Endpoint = host:port\<close>\<close>

text \<open>
  Blanks are spaces and tabs. A visible character is a printable ASCII character other
  than the space. Host and port of a plain \<open>host:port\<close> are made of visible characters
  other than the colon and the square brackets.
\<close>

definition blanks :: "string \<Rightarrow> bool" where
  "blanks s \<longleftrightarrow> list_all (\<lambda>c. c = CHR 0x20 \<or> c = CHR 0x09) s"

definition visible :: "char \<Rightarrow> bool" where
  "visible c \<longleftrightarrow> 0x20 < (of_char c :: nat) \<and> (of_char c :: nat) < 0x7F"

definition hostChars :: "string \<Rightarrow> bool" where
  "hostChars s \<longleftrightarrow> list_all (\<lambda>c. visible c \<and> c \<notin> set '':[]'') s"

subsection \<open>What a line contributes\<close>



subsection \<open>Well-formed entries\<close>

text \<open>An entry whose host name is the host part of its endpoint and is not a literal
  IPv4 address.\<close>

definition monitorable :: "Config \<Rightarrow> bool" where
  "monitorable c \<longleftrightarrow>
     (case SplitHostPort (Endpoint c) of
        Inl err \<Rightarrow> False
      | Inr (host, port) \<Rightarrow> host = Hostname c \<and> \<not> literalIPv4 host)"

subsection \<open>Example worlds\<close>

text \<open>A resolver that gives the \<open>n\<close>-th answer of a list to lookup number \<open>n\<close>, and a
  systemd whose jobs all end with the same result.\<close>

definition dnsScript :: "(error + IP) list \<Rightarrow> resolver" where
  "dnsScript answers n network host =
     (if n < length answers then answers ! n else Inl (ErrorString ''no such host''))"

definition jobResult :: "string \<Rightarrow> nat \<Rightarrow> systemd" where
  "jobResult job n name mode = Inr job"

definition vpnEntry :: "string \<Rightarrow> IP \<Rightarrow> Config" where
  "vpnEntry interfaceName ip =
     \<lparr>Interface = interfaceName, Endpoint = ''vpn.example.com:51820'',
      Hostname = ''vpn.example.com'', LastIP = ip\<rparr>"

definition twoTunnels :: DDNSMonitor where
  "twoTunnels =
     \<lparr>configs = [vpnEntry ''wg0'' [1, 2, 3, 4], vpnEntry ''wg1'' [1, 2, 3, 4]],
      singleInterface = []\<rparr>"

text \<open>A configuration file given by its lines, each ended by a line feed, and a world
  in which every path opens that file and no unit is listed.\<close>

definition unlines :: "string list \<Rightarrow> string" where
  "unlines ls = concat (map (\<lambda>l. l @ [CHR 0x0A]) ls)"

definition peerFile :: "string list \<Rightarrow> osFile" where
  "peerFile ls = \<lparr>bytes = unlines ls, readErr = None\<rparr>"

definition peerWorld :: "string list \<Rightarrow> resolver \<Rightarrow> world" where
  "peerWorld ls dns =
     \<lparr>dbusNew = None, ListUnits = Inr [],
      Join = (\<lambda>dir name. dir @ ''/'' @ name),
      Open = (\<lambda>path. Inr (peerFile ls)),
      ResolveIPAddr = dns\<rparr>"

definition emptyMonitor :: DDNSMonitor where
  "emptyMonitor = \<lparr>configs = [], singleInterface = []\<rparr>"

definition twoPeers :: DDNSMonitor where
  "twoPeers =
     \<lparr>configs =
        [\<lparr>Interface = ''wg0'', Endpoint = ''a.example.com:51820'', Hostname = ''a.example.com'',
           LastIP = [1, 2, 3, 4]\<rparr>,
         \<lparr>Interface = ''wg0'', Endpoint = '':51820'', Hostname = [], LastIP = []\<rparr>],
      singleInterface = ''wg0''\<rparr>"

definition twoHosts :: DDNSMonitor where
  "twoHosts =
     \<lparr>configs =
        [\<lparr>Interface = ''wg0'', Endpoint = ''a.example.com:51820'', Hostname = ''a.example.com'',
           LastIP = [1, 2, 3, 4]\<rparr>,
         \<lparr>Interface = ''wg0'', Endpoint = ''b.example.com:51820'', Hostname = ''b.example.com'',
           LastIP = [5, 6, 7, 8]\<rparr>],
      singleInterface = ''wg0''\<rparr>"

definition activeUnits :: "UnitStatus list" where
  "activeUnits =
     [\<lparr>Name = ''wg-quick@wg0.service'', ActiveState = ''active''\<rparr>,
      \<lparr>Name = ''wg-quick@wg1.service'', ActiveState = ''inactive''\<rparr>,
      \<lparr>Name = ''ssh.service'', ActiveState = ''active''\<rparr>]"

section \<open>The check in closed form\<close>

lemma registryAfter_0: "registryAfter dns cs 0 = cs"
  by (simp add: registryAfter_def map_nth)

lemma length_registryAfter: "length (registryAfter dns cs k) = length cs"
  by (simp add: registryAfter_def)

lemma nth_registryAfter:
  "j < length cs \<Longrightarrow>
     registryAfter dns cs k ! j = (if j < k then resolved dns j (cs ! j) else cs ! j)"
  by (simp add: registryAfter_def)

lemma registryAfter_Suc:
  assumes "k < length cs"
  shows "registryAfter dns cs (Suc k) = (registryAfter dns cs k)[k := resolved dns k (cs ! k)]"
proof (rule nth_equalityI)
  show "length (registryAfter dns cs (Suc k)) = length ((registryAfter dns cs k)[k := resolved dns k (cs ! k)])"
    by (simp add: length_registryAfter)
next
  fix j assume "j < length (registryAfter dns cs (Suc k))"
  then have j: "j < length cs" by (simp add: length_registryAfter)
  show "registryAfter dns cs (Suc k) ! j = (registryAfter dns cs k)[k := resolved dns k (cs ! k)] ! j"
  proof (cases "j = k")
    case True
    with j show ?thesis by (simp add: nth_registryAfter length_registryAfter)
  next
    case False
    with j show ?thesis by (auto simp: nth_registryAfter length_registryAfter)
  qed
qed

lemma restart_request: "snd (restartWireGuardService conn name) = (serviceName name, ''replace'')"
  by (simp add: restartWireGuardService_def Let_def)

lemma checkEndpoint_step:
  assumes "k < length (configs m)"
  shows "checkEndpoint dns conn (m\<lparr>configs := registryAfter dns (configs m) k\<rparr>, issued) k =
           (m\<lparr>configs := registryAfter dns (configs m) (Suc k)\<rparr>,
            issued @ (if drifted dns k (configs m ! k) then [restartOf dns (configs m) k] else []))"
proof (cases "dns k ''ip4'' (Hostname (configs m ! k))")
  case (Inl err)
  then have "resolved dns k (configs m ! k) = configs m ! k"
    by (simp add: resolved_def)
  then have "registryAfter dns (configs m) (Suc k) = registryAfter dns (configs m) k"
    using assms by (simp add: registryAfter_Suc nth_registryAfter list_update_same_conv length_registryAfter)
  with Inl assms show ?thesis
    by (simp add: checkEndpoint_def nth_registryAfter drifted_def)
next
  case (Inr ip)
  show ?thesis
  proof (cases "IP_Equal (LastIP (configs m ! k)) ip")
    case True
    with Inr have "resolved dns k (configs m ! k) = configs m ! k"
      by (simp add: resolved_def)
    then have "registryAfter dns (configs m) (Suc k) = registryAfter dns (configs m) k"
      using assms by (simp add: registryAfter_Suc nth_registryAfter list_update_same_conv length_registryAfter)
    with Inr True assms show ?thesis
      by (simp add: checkEndpoint_def nth_registryAfter drifted_def)
  next
    case False
    with Inr have r: "resolved dns k (configs m ! k) = (configs m ! k)\<lparr>LastIP := ip\<rparr>"
      by (simp add: resolved_def)
    have d: "drifted dns k (configs m ! k)"
      using Inr False by (simp add: drifted_def)
    obtain err req where rs: "restartWireGuardService (conn k) (Interface (configs m ! k)) = (err, req)"
      by (cases "restartWireGuardService (conn k) (Interface (configs m ! k))")
    then have req: "req = (serviceName (Interface (configs m ! k)), ''replace'')"
      using restart_request [of "conn k" "Interface (configs m ! k)"] by simp
    show ?thesis
      using Inr False assms d rs req r
      by (simp add: checkEndpoint_def nth_registryAfter registryAfter_Suc restartOf_def Let_def)
  qed
qed

lemma checkEndpoints_prefix:
  "k \<le> length (configs m) \<Longrightarrow>
     foldl (checkEndpoint dns conn) (m, []) [0..<k] =
       (m\<lparr>configs := registryAfter dns (configs m) k\<rparr>,
        map (restartOf dns (configs m)) (filter (\<lambda>i. drifted dns i (configs m ! i)) [0..<k]))"
proof (induction k)
  case 0
  show ?case by (simp add: registryAfter_0)
next
  case (Suc k)
  then have "k < length (configs m)" by simp
  with Suc show ?case
    by (simp add: checkEndpoint_step)
qed

lemma checkEndpoints_eq:
  "checkEndpoints dns conn m =
     (m\<lparr>configs := registryAfter dns (configs m) (length (configs m))\<rparr>,
      map (restartOf dns (configs m)) (filter (\<lambda>i. drifted dns i (configs m ! i)) [0..<length (configs m)]))"
  by (simp add: checkEndpoints_def checkEndpoints_prefix)

lemma filter_eq_upt: "filter (\<lambda>j. j = i \<and> P j) [0..<n] = (if i < n \<and> P i then [i] else [])"
  by (induction n) auto

lemma fst_checkEndpoints:
  "configs (fst (checkEndpoints dns conn m)) = registryAfter dns (configs m) (length (configs m))"
  by (simp add: checkEndpoints_eq)

lemma snd_checkEndpoints:
  "snd (checkEndpoints dns conn m) =
     map (restartOf dns (configs m)) (filter (\<lambda>i. drifted dns i (configs m ! i)) [0..<length (configs m)])"
  by (simp add: checkEndpoints_eq)

lemma issued_by_entry:
  "filter (\<lambda>r. entry r = i) (snd (checkEndpoints dns conn m)) =
     (if i < length (configs m) \<and> drifted dns i (configs m ! i)
      then [restartOf dns (configs m) i] else [])"
proof -
  have "filter (\<lambda>r. entry r = i) (snd (checkEndpoints dns conn m)) =
          map (restartOf dns (configs m))
            (filter (\<lambda>j. j = i \<and> drifted dns j (configs m ! j)) [0..<length (configs m)])"
    by (simp add: snd_checkEndpoints filter_map o_def restartOf_def conj_commute)
  then show ?thesis
    by (simp add: filter_eq_upt)
qed

lemma serviceName_inj: "serviceName a = serviceName b \<Longrightarrow> a = b"
  by (simp add: serviceName_def)

lemma IP_Equal_refl: "IP_Equal a a"
  by (simp add: IP_Equal_def)

lemma IP_Equal_trans: "IP_Equal a b \<Longrightarrow> IP_Equal b c \<Longrightarrow> IP_Equal a c"
proof -
  assume ab: "IP_Equal a b" and bc: "IP_Equal b c"
  have glue: "x = y" if "take 12 x = take 12 y" and "drop 12 x = drop 12 y" for x y :: IP
    using that by (metis append_take_drop_id)
  from ab bc show ?thesis
    by (auto simp: IP_Equal_def split: if_splits intro: glue)
qed

lemmas example_defs = twoTunnels_def vpnEntry_def dnsScript_def jobResult_def

section \<open>Change detection\<close>

text \<open>
  Claim C3, amended. Let entry \<open>i\<close> have the last resolved address \<open>A\<close> and let the
  check resolve its host name to \<open>B\<close>, an address that \<^verbatim>\<open>IP.Equal\<close> tells from
  \<open>A\<close> (\<open>A\<close> may be unset). Then, whatever systemd answers to the restart, the
  entry's address is \<open>B\<close> after the check; the iteration for entry \<open>i\<close> issues exactly
  one restart, of the unit \<^verbatim>\<open>wg-quick@<interface>.service\<close> with mode
  \<^verbatim>\<open>replace\<close>; the registry already holds \<open>B\<close> for entry \<open>i\<close> at the moment of
  that call; and when no other entry has the same interface name, it is the only restart
  of that unit in the whole check. Entries that share an interface name each issue a
  restart of their own.
\<close>

theorem drift_restarts_once:
  assumes i: "i < length (configs m)"
    and res: "dns i ''ip4'' (Hostname (configs m ! i)) = Inr B"
    and ne: "\<not> IP_Equal (LastIP (configs m ! i)) B"
  shows "LastIP (configs (fst (checkEndpoints dns conn m)) ! i) = B
       \<and> map request (filter (\<lambda>r. entry r = i) (snd (checkEndpoints dns conn m))) =
           [(''wg-quick@'' @ Interface (configs m ! i) @ ''.service'', ''replace'')]
       \<and> map (\<lambda>r. LastIP (registry r ! i)) (filter (\<lambda>r. entry r = i) (snd (checkEndpoints dns conn m))) = [B]
       \<and> ((\<forall>j<length (configs m). j \<noteq> i \<longrightarrow> Interface (configs m ! j) \<noteq> Interface (configs m ! i)) \<longrightarrow>
            filter (\<lambda>r. fst (request r) = ''wg-quick@'' @ Interface (configs m ! i) @ ''.service'')
              (snd (checkEndpoints dns conn m)) =
            filter (\<lambda>r. entry r = i) (snd (checkEndpoints dns conn m)))"
proof -
  have r: "resolved dns i (configs m ! i) = (configs m ! i)\<lparr>LastIP := B\<rparr>"
    using res ne by (simp add: resolved_def)
  have d: "drifted dns i (configs m ! i)"
    using res ne by (simp add: drifted_def)
  have 1: "LastIP (configs (fst (checkEndpoints dns conn m)) ! i) = B"
    using i r by (simp add: fst_checkEndpoints nth_registryAfter)
  have 2: "filter (\<lambda>r. entry r = i) (snd (checkEndpoints dns conn m)) = [restartOf dns (configs m) i]"
    using i d by (simp add: issued_by_entry)
  have 3: "request (restartOf dns (configs m) i) =
             (''wg-quick@'' @ Interface (configs m ! i) @ ''.service'', ''replace'')"
    by (simp add: restartOf_def serviceName_def)
  have 4: "LastIP (registry (restartOf dns (configs m) i) ! i) = B"
    using i r by (simp add: restartOf_def nth_registryAfter)
  have 5: "filter (\<lambda>r. fst (request r) = ''wg-quick@'' @ Interface (configs m ! i) @ ''.service'')
              (snd (checkEndpoints dns conn m)) =
            filter (\<lambda>r. entry r = i) (snd (checkEndpoints dns conn m))"
    if u: "\<forall>j<length (configs m). j \<noteq> i \<longrightarrow> Interface (configs m ! j) \<noteq> Interface (configs m ! i)"
  proof (rule filter_cong [OF refl])
    fix r assume "r \<in> set (snd (checkEndpoints dns conn m))"
    then obtain j where j: "j < length (configs m)" and rj: "r = restartOf dns (configs m) j"
      by (auto simp: snd_checkEndpoints)
    have "fst (request r) = serviceName (Interface (configs m ! j))"
      using rj by (simp add: restartOf_def)
    moreover have "entry r = j"
      using rj by (simp add: restartOf_def)
    moreover have "serviceName (Interface (configs m ! j)) = serviceName (Interface (configs m ! i)) \<longleftrightarrow> j = i"
      using u j serviceName_inj by blast
    ultimately show "(fst (request r) = ''wg-quick@'' @ Interface (configs m ! i) @ ''.service'') = (entry r = i)"
      by (simp add: serviceName_def)
  qed
  from 1 2 3 4 5 show ?thesis by simp
qed

theorem drift_restarts_once_witness:
  "0 < length (configs twoTunnels)
   \<and> dnsScript [Inr [5, 6, 7, 8], Inr [1, 2, 3, 4]] 0 ''ip4'' (Hostname (configs twoTunnels ! 0)) = Inr [5, 6, 7, 8]
   \<and> \<not> IP_Equal (LastIP (configs twoTunnels ! 0)) [5, 6, 7, 8]
   \<and> length (configs twoTunnels) = 2
   \<and> Interface (configs twoTunnels ! 1) \<noteq> Interface (configs twoTunnels ! 0)
   \<and> LastIP (configs (fst (checkEndpoints (dnsScript [Inr [5, 6, 7, 8], Inr [1, 2, 3, 4]])
         (jobResult ''failed'') twoTunnels)) ! 0) = [5, 6, 7, 8]
   \<and> map request (filter (\<lambda>r. entry r = 0) (snd (checkEndpoints
         (dnsScript [Inr [5, 6, 7, 8], Inr [1, 2, 3, 4]]) (jobResult ''failed'') twoTunnels))) =
       [(''wg-quick@wg0.service'', ''replace'')]
   \<and> map (\<lambda>r. LastIP (registry r ! 0)) (filter (\<lambda>r. entry r = 0) (snd (checkEndpoints
         (dnsScript [Inr [5, 6, 7, 8], Inr [1, 2, 3, 4]]) (jobResult ''failed'') twoTunnels))) =
       [[5, 6, 7, 8]]
   \<and> filter (\<lambda>r. fst (request r) = ''wg-quick@wg0.service'') (snd (checkEndpoints
         (dnsScript [Inr [5, 6, 7, 8], Inr [1, 2, 3, 4]]) (jobResult ''failed'') twoTunnels)) =
       filter (\<lambda>r. entry r = 0) (snd (checkEndpoints
         (dnsScript [Inr [5, 6, 7, 8], Inr [1, 2, 3, 4]]) (jobResult ''failed'') twoTunnels))"
proof -
  let ?dns = "dnsScript [Inr [5, 6, 7, 8], Inr [1, 2, 3, 4]]"
  have h1: "0 < length (configs twoTunnels)"
    by (simp add: example_defs)
  have h2: "?dns 0 ''ip4'' (Hostname (configs twoTunnels ! 0)) = Inr [5, 6, 7, 8]"
    by (simp add: example_defs)
  have h3: "\<not> IP_Equal (LastIP (configs twoTunnels ! 0)) [5, 6, 7, 8]"
    by (simp add: example_defs IP_Equal_def)
  have h4: "\<forall>j<length (configs twoTunnels). j \<noteq> 0 \<longrightarrow>
         Interface (configs twoTunnels ! j) \<noteq> Interface (configs twoTunnels ! 0)"
    by (simp add: example_defs less_Suc_eq)
  show ?thesis
    using h1 h2 h3 h4
      drift_restarts_once [where i = 0 and m = twoTunnels and dns = ?dns and B = "[5, 6, 7, 8]"
        and conn = "jobResult ''failed''", OF h1 h2 h3]
    by (simp add: example_defs)
qed

text \<open>
  Claim C6. When the resolution for entry \<open>i\<close> fails, the check leaves entry \<open>i\<close> as it
  was, its iteration issues no restart, and the check as a whole is what the iterations
  for the other indices do in registry order: those before \<open>i\<close>, then those after \<open>i\<close>.
\<close>

theorem failed_resolution_skips:
  assumes i: "i < length (configs m)"
    and res: "dns i ''ip4'' (Hostname (configs m ! i)) = Inl err"
  shows "configs (fst (checkEndpoints dns conn m)) ! i = configs m ! i
       \<and> filter (\<lambda>r. entry r = i) (snd (checkEndpoints dns conn m)) = []
       \<and> checkEndpoints dns conn m =
           foldl (checkEndpoint dns conn) (m, []) ([0..<i] @ [Suc i..<length (configs m)])"
proof -
  have r: "resolved dns i (configs m ! i) = configs m ! i"
    using res by (simp add: resolved_def)
  have d: "\<not> drifted dns i (configs m ! i)"
    using res by (simp add: drifted_def)
  have 1: "configs (fst (checkEndpoints dns conn m)) ! i = configs m ! i"
    using i r by (simp add: fst_checkEndpoints nth_registryAfter)
  have 2: "filter (\<lambda>r. entry r = i) (snd (checkEndpoints dns conn m)) = []"
    using d by (simp add: issued_by_entry)
  let ?before = "foldl (checkEndpoint dns conn) (m, []) [0..<i]"
  have same: "registryAfter dns (configs m) (Suc i) = registryAfter dns (configs m) i"
    using i r by (simp add: registryAfter_Suc nth_registryAfter list_update_same_conv length_registryAfter)
  have before: "?before = (m\<lparr>configs := registryAfter dns (configs m) i\<rparr>,
       map (restartOf dns (configs m)) (filter (\<lambda>i. drifted dns i (configs m ! i)) [0..<i]))"
    using i by (simp add: checkEndpoints_prefix)
  have skip: "checkEndpoint dns conn ?before i = ?before"
    using i d same by (simp add: before checkEndpoint_step)
  have "[0..<length (configs m)] = [0..<i] @ i # [Suc i..<length (configs m)]"
    using i by (metis le0 upt_conv_Cons upt_add_eq_append le_add_diff_inverse less_imp_le_nat)
  then have 3: "checkEndpoints dns conn m =
           foldl (checkEndpoint dns conn) (m, []) ([0..<i] @ [Suc i..<length (configs m)])"
    using skip by (simp add: checkEndpoints_def)
  from 1 2 3 show ?thesis by simp
qed

theorem failed_resolution_skips_witness:
  "0 < length (configs twoTunnels)
   \<and> dnsScript [Inl (ErrorString ''no such host''), Inr [5, 6, 7, 8]] 0 ''ip4''
        (Hostname (configs twoTunnels ! 0)) = Inl (ErrorString ''no such host'')
   \<and> configs (fst (checkEndpoints (dnsScript [Inl (ErrorString ''no such host''), Inr [5, 6, 7, 8]])
        (jobResult ''done'') twoTunnels)) ! 0 = vpnEntry ''wg0'' [1, 2, 3, 4]
   \<and> filter (\<lambda>r. entry r = 0) (snd (checkEndpoints
        (dnsScript [Inl (ErrorString ''no such host''), Inr [5, 6, 7, 8]])
        (jobResult ''done'') twoTunnels)) = []
   \<and> checkEndpoints (dnsScript [Inl (ErrorString ''no such host''), Inr [5, 6, 7, 8]])
        (jobResult ''done'') twoTunnels =
       foldl (checkEndpoint (dnsScript [Inl (ErrorString ''no such host''), Inr [5, 6, 7, 8]])
        (jobResult ''done'')) (twoTunnels, []) ([0..<0] @ [Suc 0..<length (configs twoTunnels)])"
proof -
  let ?dns = "dnsScript [Inl (ErrorString ''no such host''), Inr [5, 6, 7, 8]]"
  have h1: "0 < length (configs twoTunnels)"
    by (simp add: example_defs)
  have h2: "?dns 0 ''ip4'' (Hostname (configs twoTunnels ! 0)) = Inl (ErrorString ''no such host'')"
    by (simp add: example_defs)
  have c: "configs twoTunnels ! 0 = vpnEntry ''wg0'' [1, 2, 3, 4]"
    by (simp add: twoTunnels_def)
  show ?thesis
    using h1 h2 c
      failed_resolution_skips [where i = 0 and m = twoTunnels and dns = ?dns
        and err = "ErrorString ''no such host''" and conn = "jobResult ''done''", OF h1 h2]
    by metis
qed

text \<open>
  Claim C7. When the resolution succeeds for every entry in a first and in a second check
  and gives the same address both times (the same for \<^verbatim>\<open>IP.Equal\<close>), the second check
  issues no restart and leaves the registry as the first one left it.
\<close>

theorem second_pass_idle:
  assumes "\<forall>i<length (configs m). \<exists>a b.
             dns1 i ''ip4'' (Hostname (configs m ! i)) = Inr a
           \<and> dns2 i ''ip4'' (Hostname (configs m ! i)) = Inr b \<and> IP_Equal a b"
  shows "checkEndpoints dns2 conn2 (fst (checkEndpoints dns1 conn1 m)) =
           (fst (checkEndpoints dns1 conn1 m), [])"
proof -
  let ?cs = "configs m" and ?n = "length (configs m)"
  let ?m1 = "fst (checkEndpoints dns1 conn1 m)"
  have len: "length (configs ?m1) = ?n"
    by (simp add: fst_checkEndpoints length_registryAfter)
  have idle: "resolved dns2 i (configs ?m1 ! i) = configs ?m1 ! i \<and> \<not> drifted dns2 i (configs ?m1 ! i)"
    if i: "i < ?n" for i
  proof -
    from assms i obtain a b where a: "dns1 i ''ip4'' (Hostname (?cs ! i)) = Inr a"
      and b: "dns2 i ''ip4'' (Hostname (?cs ! i)) = Inr b" and ab: "IP_Equal a b"
      by blast
    have c1: "configs ?m1 ! i = resolved dns1 i (?cs ! i)"
      using i by (simp add: fst_checkEndpoints nth_registryAfter)
    have h: "Hostname (resolved dns1 i (?cs ! i)) = Hostname (?cs ! i)"
      using a by (simp add: resolved_def)
    have "IP_Equal (LastIP (resolved dns1 i (?cs ! i))) a"
      using a by (simp add: resolved_def IP_Equal_refl)
    then have "IP_Equal (LastIP (resolved dns1 i (?cs ! i))) b"
      using ab by (rule IP_Equal_trans)
    then show ?thesis
      using b h by (simp add: c1 resolved_def drifted_def)
  qed
  have "registryAfter dns2 (configs ?m1) ?n = configs ?m1"
  proof (rule nth_equalityI)
    show "length (registryAfter dns2 (configs ?m1) ?n) = length (configs ?m1)"
      by (simp add: length_registryAfter)
  next
    fix i assume "i < length (registryAfter dns2 (configs ?m1) ?n)"
    then have "i < ?n" by (simp add: length_registryAfter len)
    then show "registryAfter dns2 (configs ?m1) ?n ! i = configs ?m1 ! i"
      using idle len by (simp add: nth_registryAfter)
  qed
  moreover have "filter (\<lambda>i. drifted dns2 i (configs ?m1 ! i)) [0..<?n] = []"
    using idle by (simp add: filter_empty_conv)
  ultimately show ?thesis
    using len by (simp add: checkEndpoints_eq [of dns2 conn2 ?m1])
qed

theorem second_pass_idle_witness:
  "length (configs twoTunnels) = 2
   \<and> dnsScript [Inr [5, 6, 7, 8], Inr [1, 2, 3, 4]] 0 ''ip4'' (Hostname (configs twoTunnels ! 0)) =
       Inr [5, 6, 7, 8]
   \<and> dnsScript [Inr [0, 0, 0, 0, 0, 0, 0, 0, 0, 0, 0xff, 0xff, 5, 6, 7, 8], Inr [1, 2, 3, 4]] 0 ''ip4''
       (Hostname (configs twoTunnels ! 0)) = Inr [0, 0, 0, 0, 0, 0, 0, 0, 0, 0, 0xff, 0xff, 5, 6, 7, 8]
   \<and> IP_Equal [5, 6, 7, 8] [0, 0, 0, 0, 0, 0, 0, 0, 0, 0, 0xff, 0xff, 5, 6, 7, 8]
   \<and> dnsScript [Inr [5, 6, 7, 8], Inr [1, 2, 3, 4]] 1 ''ip4'' (Hostname (configs twoTunnels ! 1)) =
       Inr [1, 2, 3, 4]
   \<and> dnsScript [Inr [0, 0, 0, 0, 0, 0, 0, 0, 0, 0, 0xff, 0xff, 5, 6, 7, 8], Inr [1, 2, 3, 4]] 1 ''ip4''
       (Hostname (configs twoTunnels ! 1)) = Inr [1, 2, 3, 4]
   \<and> checkEndpoints (dnsScript [Inr [0, 0, 0, 0, 0, 0, 0, 0, 0, 0, 0xff, 0xff, 5, 6, 7, 8], Inr [1, 2, 3, 4]])
        (jobResult ''done'')
        (fst (checkEndpoints (dnsScript [Inr [5, 6, 7, 8], Inr [1, 2, 3, 4]]) (jobResult ''done'') twoTunnels)) =
       (fst (checkEndpoints (dnsScript [Inr [5, 6, 7, 8], Inr [1, 2, 3, 4]]) (jobResult ''done'') twoTunnels), [])"
proof -
  have h: "\<forall>i<length (configs twoTunnels). \<exists>a b.
       dnsScript [Inr [5, 6, 7, 8], Inr [1, 2, 3, 4]] i ''ip4'' (Hostname (configs twoTunnels ! i)) = Inr a
     \<and> dnsScript [Inr [0, 0, 0, 0, 0, 0, 0, 0, 0, 0, 0xff, 0xff, 5, 6, 7, 8], Inr [1, 2, 3, 4]] i ''ip4''
         (Hostname (configs twoTunnels ! i)) = Inr b
     \<and> IP_Equal a b"
    by (simp add: example_defs less_Suc_eq IP_Equal_def v4InV6Prefix_def)
  have e: "length (configs twoTunnels) = 2"
    "dnsScript [Inr [5, 6, 7, 8], Inr [1, 2, 3, 4]] 0 ''ip4'' (Hostname (configs twoTunnels ! 0)) =
       Inr [5, 6, 7, 8]"
    "dnsScript [Inr [0, 0, 0, 0, 0, 0, 0, 0, 0, 0, 0xff, 0xff, 5, 6, 7, 8], Inr [1, 2, 3, 4]] 0 ''ip4''
       (Hostname (configs twoTunnels ! 0)) = Inr [0, 0, 0, 0, 0, 0, 0, 0, 0, 0, 0xff, 0xff, 5, 6, 7, 8]"
    "IP_Equal [5, 6, 7, 8] [0, 0, 0, 0, 0, 0, 0, 0, 0, 0, 0xff, 0xff, 5, 6, 7, 8]"
    "dnsScript [Inr [5, 6, 7, 8], Inr [1, 2, 3, 4]] 1 ''ip4'' (Hostname (configs twoTunnels ! 1)) =
       Inr [1, 2, 3, 4]"
    "dnsScript [Inr [0, 0, 0, 0, 0, 0, 0, 0, 0, 0, 0xff, 0xff, 5, 6, 7, 8], Inr [1, 2, 3, 4]] 1 ''ip4''
       (Hostname (configs twoTunnels ! 1)) = Inr [1, 2, 3, 4]"
    by (simp_all add: example_defs IP_Equal_def v4InV6Prefix_def)
  show ?thesis
    using e
      second_pass_idle [where m = twoTunnels
        and ?dns1.0 = "dnsScript [Inr [5, 6, 7, 8], Inr [1, 2, 3, 4]]"
        and ?dns2.0 = "dnsScript [Inr [0, 0, 0, 0, 0, 0, 0, 0, 0, 0, 0xff, 0xff, 5, 6, 7, 8], Inr [1, 2, 3, 4]]"
        and ?conn1.0 = "jobResult ''done''" and ?conn2.0 = "jobResult ''done''", OF h]
    by blast
qed

section \<open>Unit names\<close>

lemma unit_name_back:
  assumes p: "HasPrefix u ''wg-quick@''" and s: "HasSuffix u ''.service''"
  shows "serviceName (unitInterface u) = u"
proof -
  have l8: "length ''.service'' = 8" and l9: "length ''wg-quick@'' = 9"
    by simp_all
  from p have "take 9 u = ''wg-quick@''"
    unfolding HasPrefix_def l9 by simp
  then obtain r where u: "u = ''wg-quick@'' @ r"
    by (metis append_take_drop_id)
  then have lu: "length u = 9 + length r"
    using l9 by (metis length_append)
  from s have su: "drop (length u - 8) u = ''.service''"
    unfolding HasSuffix_def l8 by simp
  have long: "8 \<le> length r"
  proof (rule ccontr)
    assume "\<not> 8 \<le> length r"
    then have short: "length r < 8" by simp
    then have "length u - 8 = Suc (length r)" "Suc (length r) \<le> length ''wg-quick@''"
      using lu l9 by simp_all
    with su have "drop (Suc (length r)) ''wg-quick@'' @ r = ''.service''"
      unfolding u by (simp only: drop_append) (simp only: l9, simp)
    moreover have "CHR ''@'' \<in> set (drop (Suc (length r)) ''wg-quick@'')"
    proof -
      have "Suc (length r) < length ''wg-quick@''"
        using short l9 by simp
      then have "last (drop (Suc (length r)) ''wg-quick@'') = last ''wg-quick@''"
        and "drop (Suc (length r)) ''wg-quick@'' \<noteq> []"
        by (simp_all only: last_drop drop_eq_Nil not_le)
      then show ?thesis
        by (metis last_in_set last.simps last_ConsR list.distinct(1))
    qed
    ultimately have "CHR ''@'' \<in> set ''.service''"
      by (metis Un_iff set_append)
    then show False by simp
  qed
  have "length u - 8 = 9 + (length r - 8)"
    using lu long by simp
  with su have d: "drop (length r - 8) r = ''.service''"
    unfolding u by (simp only: drop_append l9) simp
  then have r: "r = take (length r - 8) r @ ''.service''"
    by (metis append_take_drop_id)
  have "TrimPrefix u ''wg-quick@'' = r"
    unfolding TrimPrefix_def HasPrefix_def u by simp
  moreover have "TrimSuffix r ''.service'' = take (length r - 8) r"
    unfolding TrimSuffix_def HasSuffix_def l8 using long d by simp
  ultimately show ?thesis
    using r by (simp add: unitInterface_def serviceName_def u)
qed

text \<open>
  Claim C8. For every interface name \<open>s\<close>, the unit name that
  \<^verbatim>\<open>restartWireGuardService\<close> builds passes the discovery's test on prefix and suffix,
  and stripping the prefix and the suffix as the discovery does gives \<open>s\<close> back. In
  the other direction, every unit name that passes the discovery's test is the unit name
  built from the interface name the discovery recovers from it.
\<close>

theorem unit_name_roundtrip:
  "unitInterface (serviceName s) = s
   \<and> HasPrefix (serviceName s) ''wg-quick@'' \<and> HasSuffix (serviceName s) ''.service''
   \<and> (HasPrefix u ''wg-quick@'' \<and> HasSuffix u ''.service'' \<longrightarrow>
        serviceName (unitInterface u) = u)"
proof -
  have "unitInterface (serviceName s) = s"
    by (simp add: unitInterface_def serviceName_def TrimPrefix_def TrimSuffix_def
        HasPrefix_def HasSuffix_def)
  moreover have "HasPrefix (serviceName s) ''wg-quick@''" "HasSuffix (serviceName s) ''.service''"
    by (simp_all add: serviceName_def HasPrefix_def HasSuffix_def)
  ultimately show ?thesis
    using unit_name_back by blast
qed

theorem unit_name_roundtrip_witness:
  "HasPrefix ''wg-quick@wg0.service'' ''wg-quick@'' \<and> HasSuffix ''wg-quick@wg0.service'' ''.service''
   \<and> unitInterface (serviceName ''wg0'') = ''wg0''
   \<and> unitInterface ''wg-quick@wg0.service'' = ''wg0''
   \<and> serviceName (unitInterface ''wg-quick@wg0.service'') = ''wg-quick@wg0.service''"
proof -
  have h: "HasPrefix ''wg-quick@wg0.service'' ''wg-quick@''" "HasSuffix ''wg-quick@wg0.service'' ''.service''"
    by code_simp+
  have n: "serviceName ''wg0'' = ''wg-quick@wg0.service''"
    by (simp add: serviceName_def)
  from unit_name_roundtrip [of "''wg0''" "''wg-quick@wg0.service''"] h n show ?thesis
    by simp
qed

section \<open>The restart handler\<close>

text \<open>
  Claim C9. In single-interface mode for interface \<open>X\<close>, a restart request that names
  another interface is answered with status 400 and the message
  \<^verbatim>\<open>Only interface 'X' is monitored\<close>, and no request goes to systemd.
\<close>

theorem pinned_rejects_other_interface:
  assumes "singleInterface m \<noteq> []" and "RequestInterface req \<noteq> singleInterface m"
  shows "handleRestart conn m (Inr req) =
           (400, \<lparr>Success = False,
                  Message = ''Only interface '' @ [CHR 0x27] @ singleInterface m @ [CHR 0x27]
                            @ '' is monitored''\<rparr>, [])"
  using assms by (simp add: handleRestart_def quoted_def)

theorem pinned_rejects_other_interface_witness:
  "singleInterface \<lparr>configs = [vpnEntry ''wg0'' [1, 2, 3, 4]], singleInterface = ''wg0''\<rparr> \<noteq> []
   \<and> RequestInterface \<lparr>RequestInterface = ''wg1''\<rparr>
       \<noteq> singleInterface \<lparr>configs = [vpnEntry ''wg0'' [1, 2, 3, 4]], singleInterface = ''wg0''\<rparr>
   \<and> handleRestart (jobResult ''done'' 0) \<lparr>configs = [vpnEntry ''wg0'' [1, 2, 3, 4]], singleInterface = ''wg0''\<rparr>
        (Inr \<lparr>RequestInterface = ''wg1''\<rparr>) =
       (400, \<lparr>Success = False,
              Message = ''Only interface '' @ [CHR 0x27] @ ''wg0'' @ [CHR 0x27] @ '' is monitored''\<rparr>, [])"
  using pinned_rejects_other_interface
    [of "\<lparr>configs = [vpnEntry ''wg0'' [1, 2, 3, 4]], singleInterface = ''wg0''\<rparr>"
        "\<lparr>RequestInterface = ''wg1''\<rparr>" "jobResult ''done'' 0"]
  by simp

section \<open>Literal addresses match the pattern\<close>

lemma fields_nonempty: "fields sep s \<noteq> []"
  by (induction s) (auto split: list.splits)

lemma fields_join:
  "fields sep s = f # fs \<Longrightarrow> s = f @ concat (map (\<lambda>g. sep # g) fs)"
proof (induction s arbitrary: f fs)
  case Nil
  then show ?case by simp
next
  case (Cons x xs)
  obtain g gs where g: "fields sep xs = g # gs"
    using fields_nonempty [of sep xs] by (cases "fields sep xs") auto
  with Cons.IH have xs: "xs = g @ concat (map (\<lambda>g. sep # g) gs)" by simp
  show ?case
  proof (cases "x = sep")
    case True
    with Cons.prems g have "f = []" "fs = g # gs" by simp_all
    with xs True show ?thesis by simp
  next
    case False
    with Cons.prems g have "f = x # g" "fs = gs" by simp_all
    with xs show ?thesis by simp
  qed
qed

lemma literalIPv4_dotted:
  assumes "literalIPv4 host"
  shows "\<exists>a b c d. host = a @ ''.'' @ b @ ''.'' @ c @ ''.'' @ d
           \<and> digitGroup a \<and> digitGroup b \<and> digitGroup c \<and> digitGroup d"
proof -
  from assms have len: "length (fields (CHR ''.'') host) = 4"
    and all: "list_all (\<lambda>g. digitGroup g \<and> decimal g \<le> 255) (fields (CHR ''.'') host)"
    by (simp_all add: literalIPv4_def Let_def)
  from len obtain a b c d where f: "fields (CHR ''.'') host = [a, b, c, d]"
    by (auto simp: length_Suc_conv numeral_eq_Suc)
  from fields_join [OF f] have "host = a @ ''.'' @ b @ ''.'' @ c @ ''.'' @ d"
    by simp
  moreover from all f have "digitGroup a \<and> digitGroup b \<and> digitGroup c \<and> digitGroup d"
    by simp
  ultimately show ?thesis by blast
qed

lemma reDigits_group:
  assumes "digitGroup g"
  shows "reDigits (g @ CHR ''.'' # r) = Some (CHR ''.'' # r)"
proof -
  from assms have all: "\<forall>x\<in>set g. reDigit x" and ne: "g \<noteq> []"
    by (simp_all add: digitGroup_def list_all_iff)
  have nd: "\<not> reDigit (CHR ''.'')"
    by (simp add: reDigit_def)
  from all nd have "takeWhile reDigit (g @ CHR ''.'' # r) = g"
    by (simp add: takeWhile_append2)
  moreover from all nd have "dropWhile reDigit (g @ CHR ''.'' # r) = CHR ''.'' # r"
    by (simp add: dropWhile_append2)
  ultimately show ?thesis using ne by (simp add: reDigits_def)
qed

lemma reDigits_start:
  assumes "digitGroup g"
  shows "reDigits (g @ r) \<noteq> None"
proof -
  from assms obtain x xs where "g = x # xs" and "reDigit x"
    by (cases g) (auto simp: digitGroup_def)
  then show ?thesis by (simp add: reDigits_def)
qed

lemma ipRegex_dotted:
  assumes "digitGroup a" "digitGroup b" "digitGroup c" "digitGroup d"
  shows "ipRegex (a @ ''.'' @ b @ ''.'' @ c @ ''.'' @ d @ rest)"
  using assms reDigits_start [of d rest]
  by (simp add: ipRegex_def reDigits_group reDot_def)

lemma literalIPv4_ipRegex:
  assumes "literalIPv4 host"
  shows "ipRegex host"
proof -
  from literalIPv4_dotted [OF assms] obtain a b c d
    where "host = a @ ''.'' @ b @ ''.'' @ c @ ''.'' @ d"
      and "digitGroup a" "digitGroup b" "digitGroup c" "digitGroup d"
    by blast
  then show ?thesis
    using ipRegex_dotted [of a b c d "[]"] by simp
qed

lemma scanLine_ipRegex:
  assumes "endpointRegex (TrimSpace l) = Some v"
    and "SplitHostPort (TrimSpace v) = Inr (host, port)"
    and "ipRegex host"
  shows "scanLine dns interfaceName cfgs l = cfgs"
  using assms by (simp add: scanLine_def)

lemma parseWireGuardConfig_opened:
  assumes "Open w path = Inr f" and "Scanner f = (ls, err)"
  shows "parseWireGuardConfig w m interfaceName path =
           (m\<lparr>configs := foldl (scanLine (ResolveIPAddr w) interfaceName) (configs m) ls\<rparr>, err)"
  using assms by (simp add: parseWireGuardConfig_def)

section \<open>Trimming blanks\<close>

lemma take_eq_hd: "w \<noteq> [] \<Longrightarrow> take (length w) (x # xs) = w \<Longrightarrow> hd w = x"
  by (cases w) auto

lemma find_SomeD: "find P xs = Some x \<Longrightarrow> x \<in> set xs \<and> P x"
  by (induction xs) (auto split: if_splits)

lemma leadingRune_none:
  assumes "\<forall>w\<in>set runes. w \<noteq> [] \<longrightarrow> hd w \<noteq> x"
  shows "leadingRune runes (x # xs) = 0"
proof -
  have "find (\<lambda>w. w \<noteq> [] \<and> take (length w) (x # xs) = w) runes = None"
    using assms take_eq_hd by (fastforce simp: find_None_iff)
  then show ?thesis by (simp add: leadingRune_def)
qed

lemma leadingRune_single:
  assumes "[c] \<in> set runes" and "\<forall>w\<in>set runes. w \<noteq> [] \<and> hd w = c \<longrightarrow> w = [c]"
  shows "leadingRune runes (c # s) = 1"
proof -
  define P where "P = (\<lambda>w. w \<noteq> [] \<and> take (length w) (c # s) = w)"
  have "P [c]" by (simp add: P_def)
  with assms(1) have "find P runes \<noteq> None"
    unfolding find_None_iff by blast
  then obtain w where w: "find P runes = Some w" by blast
  then have "w \<in> set runes" and "P w"
    using find_SomeD [of P runes w] by simp_all
  then have "w \<noteq> []" and "hd w = c"
    using take_eq_hd [of w c s] by (simp_all add: P_def)
  with \<open>w \<in> set runes\<close> assms(2) have "w = [c]" by blast
  with w show ?thesis by (simp add: leadingRune_def P_def)
qed

lemma visible_not_space:
  assumes "visible x"
  shows "x \<notin> set (map hd spaceRunes)" and "x \<notin> set (map last spaceRunes)"
  using assms by (auto simp: visible_def spaceRunes_def)

lemma leadingRune_visible:
  assumes "visible x"
  shows "leadingRune spaceRunes (x # xs) = 0" and "leadingRune (map rev spaceRunes) (x # xs) = 0"
proof -
  show "leadingRune spaceRunes (x # xs) = 0"
  proof (rule leadingRune_none, intro ballI impI)
    fix w assume "w \<in> set spaceRunes" and "w \<noteq> []"
    then have "hd w \<in> set (map hd spaceRunes)" by simp
    with visible_not_space(1) [OF assms] show "hd w \<noteq> x" by blast
  qed
  show "leadingRune (map rev spaceRunes) (x # xs) = 0"
  proof (rule leadingRune_none, intro ballI impI)
    fix w assume "w \<in> set (map rev spaceRunes)" and "w \<noteq> []"
    then obtain u where u: "u \<in> set spaceRunes" and w: "w = rev u" and "u \<noteq> []" by auto
    then have "hd w = last u" by (simp add: hd_rev)
    moreover from u have "last u \<in> set (map last spaceRunes)" by simp
    ultimately show "hd w \<noteq> x"
      using visible_not_space(2) [OF assms] by metis
  qed
qed

lemma single_blank:
  assumes "c = CHR 0x20 \<or> c = CHR 0x09"
  shows "[c] \<in> set spaceRunes"
    and "\<forall>w\<in>set spaceRunes. w \<noteq> [] \<and> hd w = c \<longrightarrow> w = [c]"
    and "\<forall>w\<in>set spaceRunes. w \<noteq> [] \<and> last w = c \<longrightarrow> w = [c]"
  using assms by (auto simp: spaceRunes_def)

lemma leadingRune_blank:
  assumes c: "c = CHR 0x20 \<or> c = CHR 0x09"
  shows "leadingRune spaceRunes (c # s) = 1" and "leadingRune (map rev spaceRunes) (c # s) = 1"
proof -
  show "leadingRune spaceRunes (c # s) = 1"
    using single_blank(1,2) [OF c] by (rule leadingRune_single)
  have "[c] \<in> set (map rev spaceRunes)"
    using single_blank(1) [OF c] by force
  moreover have "\<forall>w\<in>set (map rev spaceRunes). w \<noteq> [] \<and> hd w = c \<longrightarrow> w = [c]"
  proof (intro ballI impI)
    fix w assume "w \<in> set (map rev spaceRunes)" and h: "w \<noteq> [] \<and> hd w = c"
    then obtain u where u: "u \<in> set spaceRunes" and w: "w = rev u" by auto
    with h have "u \<noteq> []" and "last u = c" by (simp_all add: hd_rev)
    with u single_blank(3) [OF c] have "u = [c]" by blast
    with w show "w = [c]" by simp
  qed
  ultimately show "leadingRune (map rev spaceRunes) (c # s) = 1"
    by (rule leadingRune_single)
qed

lemma stripRunes_visible:
  assumes "visible x"
  shows "stripRunes spaceRunes (x # xs) = x # xs"
    and "stripRunes (map rev spaceRunes) (x # xs) = x # xs"
  using leadingRune_visible [OF assms, of xs]
  by (subst stripRunes.simps, simp)+

lemma stripRunes_blank:
  assumes "c = CHR 0x20 \<or> c = CHR 0x09"
  shows "stripRunes spaceRunes (c # s) = stripRunes spaceRunes s"
    and "stripRunes (map rev spaceRunes) (c # s) = stripRunes (map rev spaceRunes) s"
proof -
  show "stripRunes spaceRunes (c # s) = stripRunes spaceRunes s"
    by (subst stripRunes.simps) (simp add: leadingRune_blank(1) [OF assms])
  show "stripRunes (map rev spaceRunes) (c # s) = stripRunes (map rev spaceRunes) s"
    by (subst stripRunes.simps) (simp add: leadingRune_blank(2) [OF assms])
qed

lemma stripRunes_blanks:
  assumes "blanks pre"
  shows "stripRunes spaceRunes (pre @ s) = stripRunes spaceRunes s
       \<and> stripRunes (map rev spaceRunes) (pre @ s) = stripRunes (map rev spaceRunes) s"
  using assms
proof (induction pre)
  case Nil
  show ?case by simp
next
  case (Cons c pre)
  then have c: "c = CHR 0x20 \<or> c = CHR 0x09" and p: "blanks pre"
    by (simp_all add: blanks_def)
  from Cons.IH [OF p] show ?case
    by (simp add: stripRunes_blank [OF c])
qed

lemma blanks_rev: "blanks (rev s) = blanks s"
  by (simp add: blanks_def list_all_iff)

lemma TrimSpace_blanks:
  assumes "blanks pre" and "blanks post" and "s \<noteq> []" and "visible (hd s)" and "visible (last s)"
  shows "TrimSpace (pre @ s @ post) = s"
proof -
  from assms obtain x xs where s: "s = x # xs" and x: "visible x"
    by (cases s) auto
  from assms obtain y ys where r: "rev s = y # ys" and y: "visible y"
    by (cases "rev s") (auto simp: hd_rev)
  have "TrimLeftSpace (pre @ s @ post) = s @ post"
    using stripRunes_blanks [OF assms(1), of "s @ post"] stripRunes_visible(1) [OF x, of "xs @ post"]
    by (simp add: TrimLeftSpace_def s)
  moreover have "TrimRightSpace (s @ post) = s"
  proof -
    have "blanks (rev post)" using assms(2) by (simp add: blanks_rev)
    from stripRunes_blanks [OF this, of "rev s"] stripRunes_visible(2) [OF y, of ys]
    have "stripRunes (map rev spaceRunes) (rev post @ rev s) = rev s"
      by (simp add: r)
    then show ?thesis by (simp add: TrimRightSpace_def)
  qed
  ultimately show ?thesis by (simp add: TrimSpace_def)
qed

section \<open>The pattern, the split and the scanner on plain lines\<close>

lemma takeWhile_upto: "c \<notin> set xs \<Longrightarrow> takeWhile (\<lambda>x. x \<noteq> c) (xs @ c # ys) = xs"
  by (induction xs) auto

lemma dropWhile_upto: "c \<notin> set xs \<Longrightarrow> dropWhile (\<lambda>x. x \<noteq> c) (xs @ c # ys) = c # ys"
  by (induction xs) auto

lemma visible_not_reSpace: "visible x \<Longrightarrow> \<not> reSpace x"
  by (auto simp: visible_def reSpace_def)

lemma blanks_reSpace: "blanks s \<Longrightarrow> x \<in> set s \<Longrightarrow> reSpace x"
  by (auto simp: blanks_def reSpace_def list_all_iff)

lemma endpointRegex_line:
  assumes sp1: "blanks sp1" and sp2: "blanks sp2"
    and v: "v \<noteq> []" "visible (hd v)" "CHR 0x0A \<notin> set v"
  shows "endpointRegex (''Endpoint'' @ sp1 @ ''='' @ sp2 @ v) = Some v"
proof -
  from v obtain x xs where vx: "v = x # xs" and x: "\<not> reSpace x"
    by (cases v) (auto dest: visible_not_reSpace)
  have a: "dropWhile reSpace (''Endpoint'' @ sp1 @ ''='' @ sp2 @ v) = ''Endpoint'' @ sp1 @ ''='' @ sp2 @ v"
    by (simp add: reSpace_def)
  have b: "dropWhile reSpace (sp1 @ ''='' @ sp2 @ v) = ''='' @ sp2 @ v"
    using blanks_reSpace [OF sp1] by (simp add: reSpace_def)
  have c: "takeWhile reSpace (sp2 @ v) = sp2"
    using blanks_reSpace [OF sp2] x by (simp add: vx)
  have d: "dropWhile reSpace (sp2 @ v) = v"
    using blanks_reSpace [OF sp2] x by (simp add: vx)
  show ?thesis
    unfolding endpointRegex_def a
    using b c d v by (simp add: Let_def)
qed

lemma hostChars_D:
  assumes "hostChars s" and "x \<in> set s"
  shows "visible x" and "x \<noteq> CHR '':''" and "x \<noteq> CHR ''[''" and "x \<noteq> CHR '']''"
  using assms by (auto simp: hostChars_def list_all_iff)

lemma not_visible_LF: "\<not> visible (CHR 0x0A)"
  by (simp add: visible_def)

lemma hostChars_LF: "hostChars s \<Longrightarrow> CHR 0x0A \<notin> set s"
  using hostChars_D(1) not_visible_LF by blast

lemma LastIndexByte_colon:
  assumes "CHR '':'' \<notin> set port"
  shows "LastIndexByte (host @ '':'' @ port) (CHR '':'') = Some (length host)"
proof -
  from assms have "CHR '':'' \<notin> set (rev port)"
    by simp
  then have "takeWhile (\<lambda>x. x \<noteq> CHR '':'') (rev port @ CHR '':'' # rev host) = rev port"
    by (rule takeWhile_upto)
  then show ?thesis
    by (simp add: LastIndexByte_def)
qed

lemma SplitHostPort_plain:
  assumes h: "hostChars host" and p: "hostChars port"
  shows "SplitHostPort (host @ '':'' @ port) = Inr (host, port)"
proof -
  have colon: "CHR '':'' \<notin> set host" "CHR '':'' \<notin> set port"
    using hostChars_D(2) [OF h] hostChars_D(2) [OF p] by blast+
  have lb: "CHR ''['' \<notin> set host" "CHR ''['' \<notin> set port"
    using hostChars_D(3) [OF h] hostChars_D(3) [OF p] by blast+
  have rb: "CHR '']'' \<notin> set host" "CHR '']'' \<notin> set port"
    using hostChars_D(4) [OF h] hostChars_D(4) [OF p] by blast+
  have first: "take 1 (host @ '':'' @ port) \<noteq> ''[''"
    using lb(1) by (cases host) auto
  have tail: "splitTail (host @ '':'' @ port) host (length host) 0 0 = Inr (host, port)"
    using lb rb by (simp add: splitTail_def)
  show ?thesis
    unfolding SplitHostPort_def LastIndexByte_colon [OF colon(2)]
    using first colon(1) tail by (simp add: Let_def)
qed

lemma unlines_Cons: "unlines (l # ls) = l @ CHR 0x0A # unlines ls"
  by (simp add: unlines_def)

lemma ScanLines_unlines:
  assumes "\<forall>l\<in>set ls. CHR 0x0A \<notin> set l \<and> length l < MaxScanTokenSize"
  shows "ScanLines (unlines ls) = (map dropCR ls, None)"
  using assms
proof (induction ls)
  case Nil
  show ?case by (subst ScanLines.simps) (simp add: unlines_def)
next
  case (Cons l ls)
  then have l: "CHR 0x0A \<notin> set l" "length l < MaxScanTokenSize"
    and ih: "ScanLines (unlines ls) = (map dropCR ls, None)"
    by simp_all
  have t: "takeWhile (\<lambda>c. c \<noteq> CHR 0x0A) (l @ CHR 0x0A # unlines ls) = l"
    using l(1) by (rule takeWhile_upto)
  have d: "dropWhile (\<lambda>c. c \<noteq> CHR 0x0A) (l @ CHR 0x0A # unlines ls) = CHR 0x0A # unlines ls"
    using l(1) by (rule dropWhile_upto)
  show ?case
    by (subst ScanLines.simps) (use l(2) ih in \<open>simp add: unlines_Cons t d Let_def\<close>)
qed

lemma visible_E: "visible (CHR ''E'')" and visible_colon: "visible (CHR '':'')"
  by (simp_all add: visible_def)

lemma hostport_ends:
  assumes h: "hostChars host" and p: "hostChars port"
  shows "visible (hd (host @ '':'' @ port))" and "visible (last (host @ '':'' @ port))"
    and "CHR 0x0A \<notin> set (host @ '':'' @ port)"
proof -
  show "visible (hd (host @ '':'' @ port))"
    using hostChars_D(1) [OF h] visible_colon by (cases host) auto
  show "visible (last (host @ '':'' @ port))"
    using hostChars_D(1) [OF p] visible_colon by (cases port rule: rev_cases) auto
  show "CHR 0x0A \<notin> set (host @ '':'' @ port)"
    using hostChars_LF [OF h] hostChars_LF [OF p] by simp
qed

lemma blanks_Nil: "blanks []"
  by (simp add: blanks_def)

lemma endpoint_line_parts:
  assumes "blanks pre" "blanks sp1" "blanks sp2" "blanks post"
    and h: "hostChars host" and p: "hostChars port"
  shows "endpointRegex (TrimSpace (pre @ ''Endpoint'' @ sp1 @ ''='' @ sp2 @ host @ '':'' @ port @ post))
           = Some (host @ '':'' @ port)"
    and "TrimSpace (host @ '':'' @ port) = host @ '':'' @ port"
    and "SplitHostPort (host @ '':'' @ port) = Inr (host, port)"
proof -
  let ?v = "host @ '':'' @ port"
  let ?s = "''Endpoint'' @ sp1 @ ''='' @ sp2 @ ?v"
  note ends = hostport_ends [OF h p]
  have "visible (hd ?s)" using visible_E by simp
  moreover have "visible (last ?s)" using ends(2) by simp
  ultimately have "TrimSpace (pre @ ?s @ post) = ?s"
    using assms(1,4) by (intro TrimSpace_blanks) simp_all
  moreover have "endpointRegex ?s = Some ?v"
    using assms(2,3) ends by (intro endpointRegex_line) simp_all
  ultimately show "endpointRegex (TrimSpace (pre @ ''Endpoint'' @ sp1 @ ''='' @ sp2 @ host @ '':'' @ port @ post))
           = Some ?v"
    by simp
  show "TrimSpace ?v = ?v"
    using TrimSpace_blanks [OF blanks_Nil blanks_Nil _ ends(1,2)] by simp
  show "SplitHostPort ?v = Inr (host, port)"
    using h p by (rule SplitHostPort_plain)
qed

section \<open>One line of the configuration\<close>

lemma scanLine_no_match:
  "endpointRegex (TrimSpace l) = None \<Longrightarrow> scanLine dns interfaceName cfgs l = cfgs"
  by (simp add: scanLine_def)

lemma scanLine_accept:
  assumes "endpointRegex (TrimSpace l) = Some v"
    and "SplitHostPort (TrimSpace v) = Inr (host, port)"
    and "\<not> ipRegex host"
  shows "scanLine dns interfaceName cfgs l =
           cfgs @ [\<lparr>Interface = interfaceName, Endpoint = TrimSpace v, Hostname = host,
                    LastIP = (case dns (length cfgs) ''ip4'' host of Inr ip \<Rightarrow> ip | Inl e \<Rightarrow> [])\<rparr>]"
  using assms by (simp add: scanLine_def Let_def split: sum.splits)

lemma foldl_no_match:
  assumes "\<forall>x\<in>set xs. endpointRegex (TrimSpace x) = None"
  shows "foldl (scanLine dns interfaceName) cfgs xs = cfgs"
  using assms by (induction xs arbitrary: cfgs) (simp_all add: scanLine_no_match)



section \<open>The configuration parser\<close>

lemma Scanner_peerFile:
  assumes "\<forall>l\<in>set ls. CHR 0x0A \<notin> set l \<and> length l < MaxScanTokenSize \<and> dropCR l = l"
  shows "Scanner (peerFile ls) = (ls, None)"
proof -
  from assms have "ScanLines (unlines ls) = (map dropCR ls, None)"
    by (intro ScanLines_unlines) simp
  moreover from assms have "map dropCR ls = ls"
    by (simp add: map_idI)
  ultimately show ?thesis by (simp add: Scanner_def peerFile_def)
qed

lemma Open_peerWorld: "Open (peerWorld ls dns) path = Inr (peerFile ls)"
  by (simp add: peerWorld_def)

lemma ResolveIPAddr_peerWorld: "ResolveIPAddr (peerWorld ls dns) = dns"
  by (simp add: peerWorld_def)

lemma dbusNew_peerWorld: "dbusNew (peerWorld ls dns) = None"
  by (simp add: peerWorld_def)

text \<open>
  Claim C4. A line that matches the \<open>Endpoint\<close> pattern and whose host part is a
  literal IPv4 dotted-quad address yields no entry: the iteration for that line leaves
  the registry as it was, and the parser's result for a file that holds the line is the
  result of scanning the other lines alone.
\<close>

theorem literal_ip_line_skipped:
  assumes "endpointRegex (TrimSpace l) = Some v"
    and "SplitHostPort (TrimSpace v) = Inr (host, port)"
    and "literalIPv4 host"
  shows "scanLine dns interfaceName cfgs l = cfgs
       \<and> (Open w path = Inr f \<longrightarrow> Scanner f = (xs @ l # ys, err) \<longrightarrow>
            parseWireGuardConfig w m interfaceName path =
              (m\<lparr>configs := foldl (scanLine (ResolveIPAddr w) interfaceName) (configs m) (xs @ ys)\<rparr>,
               err))"
proof -
  from assms(3) have "ipRegex host"
    by (rule literalIPv4_ipRegex)
  with assms have skip: "scanLine dns' interfaceName cfgs' l = cfgs'" for dns' cfgs'
    by (simp add: scanLine_ipRegex)
  then show ?thesis
    by (simp add: parseWireGuardConfig_opened)
qed

theorem literal_ip_line_skipped_witness:
  "endpointRegex (TrimSpace ''Endpoint = 10.0.0.1:51820'') = Some ''10.0.0.1:51820''
   \<and> SplitHostPort (TrimSpace ''10.0.0.1:51820'') = Inr (''10.0.0.1'', ''51820'')
   \<and> literalIPv4 ''10.0.0.1''
   \<and> scanLine (dnsScript [Inr [1, 2, 3, 4]]) ''wg0'' [] ''Endpoint = 10.0.0.1:51820'' = []
   \<and> parseWireGuardConfig
        (peerWorld [''Endpoint = vpn.example.com:51820'', ''Endpoint = 10.0.0.1:51820'']
           (dnsScript [Inr [1, 2, 3, 4]]))
        emptyMonitor ''wg0'' ''/etc/wireguard/wg0.conf'' =
       (\<lparr>configs = [vpnEntry ''wg0'' [1, 2, 3, 4]], singleInterface = []\<rparr>, None)"
proof -
  let ?ls = "[''Endpoint = vpn.example.com:51820'', ''Endpoint = 10.0.0.1:51820'']"
  let ?dns = "dnsScript [Inr [1, 2, 3, 4]]"
  have h1: "endpointRegex (TrimSpace ''Endpoint = 10.0.0.1:51820'') = Some ''10.0.0.1:51820''"
    by code_simp
  have h2: "SplitHostPort (TrimSpace ''10.0.0.1:51820'') = Inr (''10.0.0.1'', ''51820'')"
    by code_simp
  have h3: "literalIPv4 ''10.0.0.1''"
    by code_simp
  have h4: "Scanner (peerFile ?ls) = ([''Endpoint = vpn.example.com:51820''] @ ''Endpoint = 10.0.0.1:51820'' # [], None)"
    by (simp add: Scanner_peerFile MaxScanTokenSize_def dropCR_def)
  have e: "foldl (scanLine ?dns ''wg0'') [] [''Endpoint = vpn.example.com:51820''] =
             [vpnEntry ''wg0'' [1, 2, 3, 4]]"
    by code_simp
  note T = literal_ip_line_skipped [where dns = ?dns and interfaceName = "''wg0''" and cfgs = "[]"
      and w = "peerWorld ?ls ?dns" and m = emptyMonitor and path = "''/etc/wireguard/wg0.conf''"
      and f = "peerFile ?ls" and xs = "[''Endpoint = vpn.example.com:51820'']" and ys = "[]"
      and err = None, OF h1 h2 h3]
  show ?thesis
    using h1 h2 h3 h4 e T
    by (simp add: Open_peerWorld ResolveIPAddr_peerWorld emptyMonitor_def)
qed

text \<open>
  Claim C10. The filter only looks at the start of the host: a line that matches the
  \<open>Endpoint\<close> pattern and whose host part begins with four groups of digits separated
  by dots, whatever follows and whatever the numbers are, yields no entry. The witness
  is the host name \<open>1.2.3.4.example.com\<close>, which is not a literal IPv4 address.
\<close>

theorem dotted_prefix_line_skipped:
  assumes "endpointRegex (TrimSpace l) = Some v"
    and "SplitHostPort (TrimSpace v) = Inr (host, port)"
    and "host = a @ ''.'' @ b @ ''.'' @ c @ ''.'' @ d @ rest"
    and "digitGroup a" "digitGroup b" "digitGroup c" "digitGroup d"
  shows "scanLine dns interfaceName cfgs l = cfgs
       \<and> (Open w path = Inr f \<longrightarrow> Scanner f = (xs @ l # ys, err) \<longrightarrow>
            parseWireGuardConfig w m interfaceName path =
              (m\<lparr>configs := foldl (scanLine (ResolveIPAddr w) interfaceName) (configs m) (xs @ ys)\<rparr>,
               err))"
proof -
  have "ipRegex host"
    using assms(3-7) ipRegex_dotted [of a b c d rest] by simp
  with assms have skip: "scanLine dns' interfaceName cfgs' l = cfgs'" for dns' cfgs'
    by (simp add: scanLine_ipRegex)
  then show ?thesis
    by (simp add: parseWireGuardConfig_opened)
qed

theorem dotted_prefix_line_skipped_witness:
  "endpointRegex (TrimSpace ''Endpoint = 1.2.3.4.example.com:51820'') = Some ''1.2.3.4.example.com:51820''
   \<and> SplitHostPort (TrimSpace ''1.2.3.4.example.com:51820'') = Inr (''1.2.3.4.example.com'', ''51820'')
   \<and> ''1.2.3.4.example.com'' = ''1'' @ ''.'' @ ''2'' @ ''.'' @ ''3'' @ ''.'' @ ''4'' @ ''.example.com''
   \<and> digitGroup ''1'' \<and> digitGroup ''2'' \<and> digitGroup ''3'' \<and> digitGroup ''4''
   \<and> \<not> literalIPv4 ''1.2.3.4.example.com''
   \<and> scanLine (dnsScript [Inr [1, 2, 3, 4]]) ''wg0'' [] ''Endpoint = 1.2.3.4.example.com:51820'' = []
   \<and> \<not> literalIPv4 ''999.0.0.1''
   \<and> scanLine (dnsScript [Inr [1, 2, 3, 4]]) ''wg0'' [] ''Endpoint = 999.0.0.1:51820'' = []
   \<and> parseWireGuardConfig
        (peerWorld [''Endpoint = 1.2.3.4.example.com:51820'', ''Endpoint = vpn.example.com:51820'']
           (dnsScript [Inr [1, 2, 3, 4]]))
        emptyMonitor ''wg0'' ''/etc/wireguard/wg0.conf'' =
       (\<lparr>configs = [vpnEntry ''wg0'' [1, 2, 3, 4]], singleInterface = []\<rparr>, None)"
proof -
  let ?ls = "[''Endpoint = 1.2.3.4.example.com:51820'', ''Endpoint = vpn.example.com:51820'']"
  let ?dns = "dnsScript [Inr [1, 2, 3, 4]]"
  have h1: "endpointRegex (TrimSpace ''Endpoint = 1.2.3.4.example.com:51820'') = Some ''1.2.3.4.example.com:51820''"
    by code_simp
  have h2: "SplitHostPort (TrimSpace ''1.2.3.4.example.com:51820'') = Inr (''1.2.3.4.example.com'', ''51820'')"
    by code_simp
  have h3: "''1.2.3.4.example.com'' = ''1'' @ ''.'' @ ''2'' @ ''.'' @ ''3'' @ ''.'' @ ''4'' @ ''.example.com''"
    by simp
  have h4: "digitGroup ''1''" "digitGroup ''2''" "digitGroup ''3''" "digitGroup ''4''"
    by code_simp+
  have n: "\<not> literalIPv4 ''1.2.3.4.example.com''" "\<not> literalIPv4 ''999.0.0.1''"
    by code_simp+
  have g1: "endpointRegex (TrimSpace ''Endpoint = 999.0.0.1:51820'') = Some ''999.0.0.1:51820''"
    by code_simp
  have g2: "SplitHostPort (TrimSpace ''999.0.0.1:51820'') = Inr (''999.0.0.1'', ''51820'')"
    by code_simp
  have g3: "''999.0.0.1'' = ''999'' @ ''.'' @ ''0'' @ ''.'' @ ''0'' @ ''.'' @ ''1'' @ []"
    by simp
  have g4: "digitGroup ''999''" "digitGroup ''0''" "digitGroup ''0''" "digitGroup ''1''"
    by code_simp+
  note U = dotted_prefix_line_skipped [where dns = "dnsScript [Inr [1, 2, 3, 4]]"
      and interfaceName = "''wg0''" and cfgs = "[]", OF g1 g2 g3 g4, THEN conjunct1]
  have h5: "Scanner (peerFile ?ls) = ([] @ ''Endpoint = 1.2.3.4.example.com:51820'' # [''Endpoint = vpn.example.com:51820''], None)"
    by (simp add: Scanner_peerFile MaxScanTokenSize_def dropCR_def)
  have e: "foldl (scanLine ?dns ''wg0'') [] [''Endpoint = vpn.example.com:51820''] =
             [vpnEntry ''wg0'' [1, 2, 3, 4]]"
    by code_simp
  note T = dotted_prefix_line_skipped [where dns = ?dns and interfaceName = "''wg0''" and cfgs = "[]"
      and w = "peerWorld ?ls ?dns" and m = emptyMonitor and path = "''/etc/wireguard/wg0.conf''"
      and f = "peerFile ?ls" and xs = "[]" and ys = "[''Endpoint = vpn.example.com:51820'']"
      and err = None, OF h1 h2 h3 h4]
  show ?thesis
    using h1 h2 h4 n h5 e T U
    by (simp add: Open_peerWorld ResolveIPAddr_peerWorld emptyMonitor_def)
qed

text \<open>
  Where the filter lets the host through, a single \<open>Endpoint\<close> line is registered:
  let the scanner deliver the lines of the file, let exactly one of them match the
  \<open>Endpoint\<close> pattern, and let it be \<open>Endpoint = host:port\<close> (blanks allowed around
  the line, the key and the equals sign) with host and port made of visible characters
  other than colon and square brackets. When the host does not begin with four
  dot-separated groups of digits, the parser appends exactly one entry, with that host
  as its host name.
\<close>

theorem single_endpoint_registered:
  assumes "Open w path = Inr f" and "Scanner f = (xs @ l # ys, err)"
    and "l = pre @ ''Endpoint'' @ sp1 @ ''='' @ sp2 @ host @ '':'' @ port @ post"
    and "blanks pre" "blanks sp1" "blanks sp2" "blanks post"
    and "hostChars host" and "hostChars port"
    and "\<not> ipRegex host"
    and "\<forall>x\<in>set (xs @ ys). endpointRegex (TrimSpace x) = None"
  shows "configs (fst (parseWireGuardConfig w m interfaceName path)) =
           configs m @
           [\<lparr>Interface = interfaceName, Endpoint = host @ '':'' @ port, Hostname = host,
             LastIP = (case ResolveIPAddr w (length (configs m)) ''ip4'' host of
                         Inr ip \<Rightarrow> ip | Inl e \<Rightarrow> [])\<rparr>]"
proof -
  let ?body = "scanLine (ResolveIPAddr w) interfaceName"
  note parts = endpoint_line_parts [OF assms(4-9)]
  have xs: "foldl ?body cfgs xs = cfgs" and ys: "foldl ?body cfgs ys = cfgs" for cfgs
    using assms(11) by (simp_all add: foldl_no_match)
  have "?body (configs m) l =
          configs m @
           [\<lparr>Interface = interfaceName, Endpoint = host @ '':'' @ port, Hostname = host,
             LastIP = (case ResolveIPAddr w (length (configs m)) ''ip4'' host of
                         Inr ip \<Rightarrow> ip | Inl e \<Rightarrow> [])\<rparr>]"
    using scanLine_accept [of l "host @ '':'' @ port" host port "ResolveIPAddr w" interfaceName "configs m"]
      parts assms(3,10) by simp
  then show ?thesis
    using assms(1,2) by (simp add: parseWireGuardConfig_opened xs ys)
qed

theorem single_endpoint_registered_witness:
  "blanks ''  '' \<and> blanks '' '' \<and> blanks []
   \<and> hostChars ''vpn.example.com'' \<and> hostChars ''51820''
   \<and> \<not> ipRegex ''vpn.example.com''
   \<and> endpointRegex (TrimSpace ''[Peer]'') = None
   \<and> endpointRegex (TrimSpace ''AllowedIPs = 0.0.0.0/0'') = None
   \<and> configs (fst (parseWireGuardConfig
        (peerWorld [''[Peer]'', ''  Endpoint = vpn.example.com:51820'', ''AllowedIPs = 0.0.0.0/0'']
           (dnsScript [Inr [1, 2, 3, 4]]))
        emptyMonitor ''wg0'' ''/etc/wireguard/wg0.conf'')) =
       [vpnEntry ''wg0'' [1, 2, 3, 4]]"
proof -
  let ?ls = "[''[Peer]'', ''  Endpoint = vpn.example.com:51820'', ''AllowedIPs = 0.0.0.0/0'']"
  let ?dns = "dnsScript [Inr [1, 2, 3, 4]]"
  have h2: "Scanner (peerFile ?ls) =
      ([''[Peer]''] @ ''  Endpoint = vpn.example.com:51820'' # [''AllowedIPs = 0.0.0.0/0''], None)"
    by (simp add: Scanner_peerFile MaxScanTokenSize_def dropCR_def)
  have h3: "''  Endpoint = vpn.example.com:51820'' =
      ''  '' @ ''Endpoint'' @ '' '' @ ''='' @ '' '' @ ''vpn.example.com'' @ '':'' @ ''51820'' @ []"
    by simp
  have b: "blanks ''  ''" "blanks '' ''" "blanks []"
    by (simp_all add: blanks_def)
  have hc: "hostChars ''vpn.example.com''" "hostChars ''51820''"
    by code_simp+
  have ni: "\<not> ipRegex ''vpn.example.com''"
    by code_simp
  have o1: "endpointRegex (TrimSpace ''[Peer]'') = None"
    by code_simp
  have o2: "endpointRegex (TrimSpace ''AllowedIPs = 0.0.0.0/0'') = None"
    by code_simp
  have others: "\<forall>x\<in>set ([''[Peer]''] @ [''AllowedIPs = 0.0.0.0/0'']). endpointRegex (TrimSpace x) = None"
    using o1 o2 by simp
  note T = single_endpoint_registered [where w = "peerWorld ?ls ?dns" and m = emptyMonitor
      and interfaceName = "''wg0''" and path = "''/etc/wireguard/wg0.conf''",
      OF Open_peerWorld h2 h3 b(1) b(2) b(2) b(3) hc ni others]
  show ?thesis
    using b hc ni o1 o2 T
    by (simp add: ResolveIPAddr_peerWorld emptyMonitor_def dnsScript_def vpnEntry_def)
qed

text \<open>
  Claim C5 says that a file with exactly one line \<open>Endpoint = host:port\<close> whose host
  is not a literal IPv4 address gives exactly one entry with that host name. The code
  does not do this for a host name that begins like an address: the only \<open>Endpoint\<close>
  line of the file names \<open>1.2.3.4.nip.io\<close>, which is not a literal IPv4 address, the
  line matches the pattern and splits into host and port, and the parser produces no
  entry.
\<close>

theorem dotted_hostname_dropped:
  "\<not> literalIPv4 ''1.2.3.4.nip.io''
   \<and> Scanner (peerFile [''Endpoint = 1.2.3.4.nip.io:51820'']) = ([''Endpoint = 1.2.3.4.nip.io:51820''], None)
   \<and> endpointRegex (TrimSpace ''Endpoint = 1.2.3.4.nip.io:51820'') = Some ''1.2.3.4.nip.io:51820''
   \<and> SplitHostPort (TrimSpace ''1.2.3.4.nip.io:51820'') = Inr (''1.2.3.4.nip.io'', ''51820'')
   \<and> parseWireGuardConfig
        (peerWorld [''Endpoint = 1.2.3.4.nip.io:51820''] (dnsScript [Inr [1, 2, 3, 4]]))
        emptyMonitor ''wg0'' ''/etc/wireguard/wg0.conf'' = (emptyMonitor, None)"
proof -
  let ?ls = "[''Endpoint = 1.2.3.4.nip.io:51820'']"
  have n: "\<not> literalIPv4 ''1.2.3.4.nip.io''"
    by code_simp
  have s: "Scanner (peerFile ?ls) = (?ls, None)"
    by (simp add: Scanner_peerFile MaxScanTokenSize_def dropCR_def)
  have r: "endpointRegex (TrimSpace ''Endpoint = 1.2.3.4.nip.io:51820'') = Some ''1.2.3.4.nip.io:51820''"
    by code_simp
  have p: "SplitHostPort (TrimSpace ''1.2.3.4.nip.io:51820'') = Inr (''1.2.3.4.nip.io'', ''51820'')"
    by code_simp
  have e: "foldl (scanLine (dnsScript [Inr [1, 2, 3, 4]]) ''wg0'') [] ?ls = []"
    by code_simp
  show ?thesis
    using n s r p e
    by (simp add: parseWireGuardConfig_def Open_peerWorld ResolveIPAddr_peerWorld emptyMonitor_def)
qed




section \<open>The registry in reachable states\<close>

lemma scanLine_monitorable:
  assumes "\<forall>c\<in>set cfgs. monitorable c"
  shows "\<forall>c\<in>set (scanLine dns interfaceName cfgs l). monitorable c"
proof (cases "endpointRegex (TrimSpace l)")
  case None
  with assms show ?thesis by (simp add: scanLine_no_match)
next
  case (Some v)
  show ?thesis
  proof (cases "SplitHostPort (TrimSpace v)")
    case (Inl e)
    with Some assms show ?thesis by (simp add: scanLine_def)
  next
    case (Inr hp)
    then obtain host port where hp: "SplitHostPort (TrimSpace v) = Inr (host, port)"
      by (cases hp) auto
    show ?thesis
    proof (cases "ipRegex host")
      case True
      with Some hp assms show ?thesis by (simp add: scanLine_ipRegex)
    next
      case False
      then have "\<not> literalIPv4 host"
        using literalIPv4_ipRegex by blast
      with False Some hp assms show ?thesis by (simp add: scanLine_accept monitorable_def)
    qed
  qed
qed

lemma foldl_scanLine_monitorable:
  "\<forall>c\<in>set cfgs. monitorable c \<Longrightarrow>
     \<forall>c\<in>set (foldl (scanLine dns interfaceName) cfgs ls). monitorable c"
proof (induction ls arbitrary: cfgs)
  case Nil
  then show ?case by simp
next
  case (Cons l ls)
  from Cons.IH [OF scanLine_monitorable [OF Cons.prems]] show ?case by simp
qed

lemma parseWireGuardConfig_monitorable:
  assumes "\<forall>c\<in>set (configs m). monitorable c"
  shows "\<forall>c\<in>set (configs (fst (parseWireGuardConfig w m interfaceName path))). monitorable c"
proof (cases "Open w path")
  case (Inl e)
  with assms show ?thesis by (simp add: parseWireGuardConfig_def)
next
  case (Inr f)
  obtain ls err where "Scanner f = (ls, err)" by (cases "Scanner f")
  with Inr foldl_scanLine_monitorable [OF assms] show ?thesis
    by (simp add: parseWireGuardConfig_opened)
qed

lemma parseSingleInterface_monitorable:
  assumes "\<forall>c\<in>set (configs m). monitorable c"
  shows "\<forall>c\<in>set (configs (fst (parseSingleInterface w m))). monitorable c"
proof -
  let ?p = "parseWireGuardConfig w m (singleInterface m)
              (Join w ''/etc/wireguard'' (singleInterface m @ ''.conf''))"
  have "fst (parseSingleInterface w m) = fst ?p"
    by (simp add: parseSingleInterface_def Let_def split: prod.splits option.splits)
  with parseWireGuardConfig_monitorable [OF assms] show ?thesis by simp
qed

lemma discoverUnit_monitorable:
  assumes "\<forall>c\<in>set (configs m). monitorable c"
  shows "\<forall>c\<in>set (configs (discoverUnit w m u)). monitorable c"
  using assms parseWireGuardConfig_monitorable [OF assms]
  by (simp add: discoverUnit_def Let_def)

lemma foldl_discoverUnit_monitorable:
  "\<forall>c\<in>set (configs m). monitorable c \<Longrightarrow>
     \<forall>c\<in>set (configs (foldl (discoverUnit w) m us)). monitorable c"
proof (induction us arbitrary: m)
  case Nil
  then show ?case by simp
next
  case (Cons u us)
  from Cons.IH [OF discoverUnit_monitorable [OF Cons.prems]] show ?case by simp
qed

lemma initialize_monitorable:
  assumes "\<forall>c\<in>set (configs m). monitorable c"
  shows "\<forall>c\<in>set (configs (fst (initialize w m))). monitorable c"
  using assms parseSingleInterface_monitorable [OF assms] foldl_discoverUnit_monitorable [OF assms]
  by (simp add: initialize_def discoverWireGuardConfigs_def split: option.splits sum.splits)

lemma resolved_fields:
  "Interface (resolved dns i c) = Interface c"
  "Endpoint (resolved dns i c) = Endpoint c"
  "Hostname (resolved dns i c) = Hostname c"
  by (simp_all add: resolved_def split: sum.splits)

lemma resolved_LastIP:
  "LastIP (resolved dns i c) \<noteq> LastIP c \<Longrightarrow>
     dns i ''ip4'' (Hostname c) = Inr (LastIP (resolved dns i c))"
  by (simp add: resolved_def split: sum.splits if_splits)

lemma resolved_monitorable: "monitorable (resolved dns i c) = monitorable c"
  by (simp add: monitorable_def resolved_fields split: sum.splits prod.splits)

lemma checkEndpoints_monitorable:
  assumes "\<forall>c\<in>set (configs m). monitorable c"
  shows "\<forall>c\<in>set (configs (fst (checkEndpoints dns conn m))). monitorable c"
proof
  fix c assume "c \<in> set (configs (fst (checkEndpoints dns conn m)))"
  then obtain j where j: "j < length (configs m)"
    and c: "c = registryAfter dns (configs m) (length (configs m)) ! j"
    by (auto simp: fst_checkEndpoints in_set_conv_nth length_registryAfter)
  then have "c = resolved dns j (configs m ! j)"
    by (simp add: nth_registryAfter)
  with assms j show "monitorable c"
    by (simp add: resolved_monitorable)
qed

lemma reachable_monitorable: "reachable m \<Longrightarrow> \<forall>c\<in>set (configs m). monitorable c"
proof (induction rule: reachable.induct)
  case (started w single m)
  have "\<forall>c\<in>set (configs \<lparr>configs = [], singleInterface = single\<rparr>). monitorable c"
    by simp
  from initialize_monitorable [OF this, of w] started show ?case by simp
next
  case (checked m dns conn)
  from checkEndpoints_monitorable [OF checked.IH] show ?case .
qed

text \<open>
  Claim C2, amended. In every state that start-up and checks can reach, each entry's
  host name is the host part of its endpoint and is not a literal IPv4 address; a check
  keeps the length of the registry and the interface, endpoint and host name of every
  entry, and where it changes the last resolved address of an entry, the resolution for
  that entry succeeded in this check and gave the new address. Interface names need not
  be unique: every accepted \<open>Endpoint\<close> line of a file gives an entry of its own.
\<close>

theorem registry_invariant:
  assumes "reachable m"
  shows "(\<forall>c\<in>set (configs m). monitorable c)
       \<and> (\<forall>dns conn i. i < length (configs m) \<longrightarrow>
            length (configs (fst (checkEndpoints dns conn m))) = length (configs m)
          \<and> Interface (configs (fst (checkEndpoints dns conn m)) ! i) = Interface (configs m ! i)
          \<and> Endpoint (configs (fst (checkEndpoints dns conn m)) ! i) = Endpoint (configs m ! i)
          \<and> Hostname (configs (fst (checkEndpoints dns conn m)) ! i) = Hostname (configs m ! i)
          \<and> (LastIP (configs (fst (checkEndpoints dns conn m)) ! i) \<noteq> LastIP (configs m ! i) \<longrightarrow>
               dns i ''ip4'' (Hostname (configs m ! i)) =
                 Inr (LastIP (configs (fst (checkEndpoints dns conn m)) ! i))))"
proof -
  have "configs (fst (checkEndpoints dns conn m)) ! i = resolved dns i (configs m ! i)"
    if "i < length (configs m)" for dns conn i
    using that by (simp add: fst_checkEndpoints nth_registryAfter)
  moreover have "length (configs (fst (checkEndpoints dns conn m))) = length (configs m)" for dns conn
    by (simp add: fst_checkEndpoints length_registryAfter)
  ultimately show ?thesis
    using reachable_monitorable [OF assms] resolved_LastIP
    by (simp add: resolved_fields)
qed

theorem registry_invariant_witness:
  "initialize ((peerWorld [''[Peer]'', ''Endpoint = vpn.example.com:51820'']
       (dnsScript [Inr [1, 2, 3, 4]]))\<lparr>ListUnits := Inr activeUnits\<rparr>)
     \<lparr>configs = [], singleInterface = []\<rparr> =
       (\<lparr>configs = [vpnEntry ''wg0'' [1, 2, 3, 4]], singleInterface = []\<rparr>, None)
   \<and> reachable \<lparr>configs = [vpnEntry ''wg0'' [1, 2, 3, 4]], singleInterface = []\<rparr>
   \<and> monitorable (vpnEntry ''wg0'' [1, 2, 3, 4])
   \<and> configs (fst (checkEndpoints (dnsScript [Inr [5, 6, 7, 8]]) (jobResult ''done'')
        \<lparr>configs = [vpnEntry ''wg0'' [1, 2, 3, 4]], singleInterface = []\<rparr>)) =
       [vpnEntry ''wg0'' [5, 6, 7, 8]]
   \<and> dnsScript [Inr [5, 6, 7, 8]] 0 ''ip4'' ''vpn.example.com'' = Inr [5, 6, 7, 8]"
proof -
  let ?ls = "[''[Peer]'', ''Endpoint = vpn.example.com:51820'']"
  let ?dns = "dnsScript [Inr [1, 2, 3, 4]]"
  let ?w = "(peerWorld ?ls ?dns)\<lparr>ListUnits := Inr activeUnits\<rparr>"
  let ?m = "\<lparr>configs = [vpnEntry ''wg0'' [1, 2, 3, 4]], singleInterface = []\<rparr>"
  let ?d = "dnsScript [Inr [5, 6, 7, 8]]"
  have s: "Scanner (peerFile ?ls) = (?ls, None)"
    by (simp add: Scanner_peerFile MaxScanTokenSize_def dropCR_def)
  have e: "foldl (scanLine ?dns ''wg0'') [] ?ls = [vpnEntry ''wg0'' [1, 2, 3, 4]]"
    by code_simp
  have u: "unitInterface ''wg-quick@wg0.service'' = ''wg0''"
    "HasPrefix ''wg-quick@wg0.service'' ''wg-quick@''" "HasSuffix ''wg-quick@wg0.service'' ''.service''"
    "\<not> HasPrefix ''ssh.service'' ''wg-quick@''"
    by code_simp+
  have o: "Open ?w path = Inr (peerFile ?ls)" for path
    by (simp add: peerWorld_def)
  have p: "parseWireGuardConfig ?w \<lparr>configs = [], singleInterface = []\<rparr> ''wg0'' path = (?m, None)"
    for path
    using e parseWireGuardConfig_opened [OF o s, of "\<lparr>configs = [], singleInterface = []\<rparr>" "''wg0''"]
    by (simp add: peerWorld_def)
  have i: "initialize ?w \<lparr>configs = [], singleInterface = []\<rparr> = (?m, None)"
    using u p
    by (simp add: initialize_def discoverWireGuardConfigs_def discoverUnit_def activeUnits_def
        dbusNew_peerWorld)
  from i have r: "reachable ?m"
    by (rule reachable.started)
  have c: "configs (fst (checkEndpoints ?d (jobResult ''done'') ?m)) = [vpnEntry ''wg0'' [5, 6, 7, 8]]"
    by code_simp
  note T = registry_invariant [OF r]
  from T have "monitorable (vpnEntry ''wg0'' [1, 2, 3, 4])"
    by simp
  moreover from T have
    "LastIP (configs (fst (checkEndpoints ?d (jobResult ''done'') ?m)) ! 0) \<noteq> LastIP (configs ?m ! 0) \<longrightarrow>
       ?d 0 ''ip4'' (Hostname (configs ?m ! 0)) =
         Inr (LastIP (configs (fst (checkEndpoints ?d (jobResult ''done'') ?m)) ! 0))"
    by simp
  with c have "?d 0 ''ip4'' ''vpn.example.com'' = Inr [5, 6, 7, 8]"
    by (simp add: vpnEntry_def)
  ultimately show ?thesis
    using i r c by simp
qed

text \<open>
  Counterexample to claim C2 as stated: started for the single interface \<open>wg0\<close> on a
  file with the lines \<open>Endpoint = a.example.com:51820\<close> and \<open>Endpoint = :51820\<close>,
  the monitor reaches a registry with two entries of the same interface name, the second
  with an empty host name.
\<close>

theorem unique_nonempty_counterexample:
  "initialize (peerWorld [''Endpoint = a.example.com:51820'', ''Endpoint = :51820'']
       (dnsScript [Inr [1, 2, 3, 4], Inr []]))
     \<lparr>configs = [], singleInterface = ''wg0''\<rparr> = (twoPeers, None)
   \<and> reachable twoPeers
   \<and> \<not> distinct (map Interface (configs twoPeers))
   \<and> Hostname (configs twoPeers ! 1) = []"
proof -
  let ?ls = "[''Endpoint = a.example.com:51820'', ''Endpoint = :51820'']"
  let ?dns = "dnsScript [Inr [1, 2, 3, 4], Inr []]"
  have s: "Scanner (peerFile ?ls) = (?ls, None)"
    by (simp add: Scanner_peerFile MaxScanTokenSize_def dropCR_def)
  have e: "foldl (scanLine ?dns ''wg0'') [] ?ls = configs twoPeers"
    by code_simp
  have p: "parseWireGuardConfig (peerWorld ?ls ?dns) \<lparr>configs = [], singleInterface = ''wg0''\<rparr>
             ''wg0'' path = (twoPeers, None)" for path
    using e parseWireGuardConfig_opened [OF Open_peerWorld s, of ?dns "\<lparr>configs = [], singleInterface = ''wg0''\<rparr>" "''wg0''" path]
    by (simp add: ResolveIPAddr_peerWorld twoPeers_def)
  have i: "initialize (peerWorld ?ls ?dns) \<lparr>configs = [], singleInterface = ''wg0''\<rparr> = (twoPeers, None)"
    by (simp add: initialize_def parseSingleInterface_def dbusNew_peerWorld p)
  from i have r: "reachable twoPeers"
    by (rule reachable.started)
  have d: "\<not> distinct (map Interface (configs twoPeers))" "Hostname (configs twoPeers ! 1) = []"
    by (simp_all add: twoPeers_def)
  from i r d show ?thesis by simp
qed

section \<open>Two entries of one interface\<close>

text \<open>
  Counterexample to claim C3 as stated: started for the single interface \<open>wg0\<close> on a
  file with two \<open>Endpoint\<close> lines that name host names, the monitor reaches a registry
  with two entries of \<open>wg0\<close>. In a check in which both host names resolve to new
  addresses, the unit \<^verbatim>\<open>wg-quick@wg0.service\<close> is restarted twice, not once.
\<close>

theorem shared_interface_counterexample:
  "initialize (peerWorld [''Endpoint = a.example.com:51820'', ''Endpoint = b.example.com:51820'']
       (dnsScript [Inr [1, 2, 3, 4], Inr [5, 6, 7, 8]]))
     \<lparr>configs = [], singleInterface = ''wg0''\<rparr> = (twoHosts, None)
   \<and> reachable twoHosts
   \<and> LastIP (configs twoHosts ! 0) = [1, 2, 3, 4]
   \<and> dnsScript [Inr [9, 9, 9, 9], Inr [8, 8, 8, 8]] 0 ''ip4'' (Hostname (configs twoHosts ! 0)) =
       Inr [9, 9, 9, 9]
   \<and> \<not> IP_Equal [1, 2, 3, 4] [9, 9, 9, 9]
   \<and> Interface (configs twoHosts ! 0) = ''wg0''
   \<and> map request (snd (checkEndpoints (dnsScript [Inr [9, 9, 9, 9], Inr [8, 8, 8, 8]])
         (jobResult ''done'') twoHosts)) =
       [(''wg-quick@wg0.service'', ''replace''), (''wg-quick@wg0.service'', ''replace'')]"
proof -
  let ?ls = "[''Endpoint = a.example.com:51820'', ''Endpoint = b.example.com:51820'']"
  let ?dns = "dnsScript [Inr [1, 2, 3, 4], Inr [5, 6, 7, 8]]"
  have s: "Scanner (peerFile ?ls) = (?ls, None)"
    by (simp add: Scanner_peerFile MaxScanTokenSize_def dropCR_def)
  have e: "foldl (scanLine ?dns ''wg0'') [] ?ls = configs twoHosts"
    by code_simp
  have p: "parseWireGuardConfig (peerWorld ?ls ?dns) \<lparr>configs = [], singleInterface = ''wg0''\<rparr>
             ''wg0'' path = (twoHosts, None)" for path
    using e parseWireGuardConfig_opened [OF Open_peerWorld s, of ?dns "\<lparr>configs = [], singleInterface = ''wg0''\<rparr>" "''wg0''" path]
    by (simp add: ResolveIPAddr_peerWorld twoHosts_def)
  have i: "initialize (peerWorld ?ls ?dns) \<lparr>configs = [], singleInterface = ''wg0''\<rparr> = (twoHosts, None)"
    by (simp add: initialize_def parseSingleInterface_def dbusNew_peerWorld p)
  from i have r: "reachable twoHosts"
    by (rule reachable.started)
  have h: "LastIP (configs twoHosts ! 0) = [1, 2, 3, 4]"
    "dnsScript [Inr [9, 9, 9, 9], Inr [8, 8, 8, 8]] 0 ''ip4'' (Hostname (configs twoHosts ! 0)) =
       Inr [9, 9, 9, 9]"
    "\<not> IP_Equal [1, 2, 3, 4] [9, 9, 9, 9]"
    "Interface (configs twoHosts ! 0) = ''wg0''"
    by (simp_all add: twoHosts_def dnsScript_def IP_Equal_def)
  have c: "map request (snd (checkEndpoints (dnsScript [Inr [9, 9, 9, 9], Inr [8, 8, 8, 8]])
         (jobResult ''done'') twoHosts)) =
       [(''wg-quick@wg0.service'', ''replace''), (''wg-quick@wg0.service'', ''replace'')]"
    by code_simp
  from i r h c show ?thesis by simp
qed

end
